theory Spec2Isabelle
  imports
    Main
    "HOL-Library.Char_ord"
    "HOL-Library.List_Lexorder"
    "HOL-Library.Sublist"
    "HOL-Library.Multiset"
begin

section \<open>Python values: errors, text, numbers\<close>

text \<open>
  The program is one Python file, \<^verbatim>\<open>MRI-EnvLogger.py\<close>. A Python \<^verbatim>\<open>str\<close> is modelled by
  its bytes (\<^typ>\<open>string\<close>); every text the program itself produces is ASCII. An
  exception is the \<^term>\<open>Inl\<close> side of a sum: each \<^verbatim>\<open>raise\<close> and each raising library call is
  a branch that returns \<^term>\<open>Inl\<close>.
\<close>

datatype py_error =
    RuntimeError string
  | ValueError
  | TypeError
  | OverflowError
  | OSError

definition is_digit :: "char \<Rightarrow> bool" where
  "is_digit c \<longleftrightarrow> CHR ''0'' \<le> c \<and> c \<le> CHR ''9''"

definition digit_val :: "char \<Rightarrow> nat" where
  "digit_val c = of_char c - 48"

definition digit_char :: "nat \<Rightarrow> char" where
  "digit_char n = char_of (48 + n)"

text \<open>\<^verbatim>\<open>int(s)\<close> on a run of ASCII digits.\<close>

definition nat_of_digits :: "string \<Rightarrow> nat" where
  "nat_of_digits s = foldl (\<lambda>a c. 10 * a + digit_val c) 0 s"

text \<open>\<^verbatim>\<open>%02d\<close> and \<^verbatim>\<open>%04d\<close>: zero padded decimals, as \<^verbatim>\<open>strftime\<close> prints its fields.\<close>

definition pad2 :: "nat \<Rightarrow> string" where
  "pad2 n = [digit_char (n div 10 mod 10), digit_char (n mod 10)]"

definition pad4 :: "nat \<Rightarrow> string" where
  "pad4 n = [digit_char (n div 1000 mod 10), digit_char (n div 100 mod 10),
             digit_char (n div 10 mod 10), digit_char (n mod 10)]"

text \<open>
  \<^verbatim>\<open>str.isspace\<close> on ASCII: tab, line feed, vertical tab, form feed, carriage return,
  the four separators \<^verbatim>\<open>0x1c..0x1f\<close> and the space. It is what \<^verbatim>\<open>str.strip()\<close> removes
  and what \<^verbatim>\<open>\s\<close> matches.
\<close>

definition is_space :: "char \<Rightarrow> bool" where
  "is_space c \<longleftrightarrow> (let k = (of_char c :: nat) in (9 \<le> k \<and> k \<le> 13) \<or> (28 \<le> k \<and> k \<le> 32))"

definition strip :: "string \<Rightarrow> string" where
  "strip s = rev (dropWhile is_space (rev (dropWhile is_space s)))"

section \<open>Dates and times (\<^verbatim>\<open>datetime\<close>)\<close>

record datetime =
  dt_year :: nat
  dt_month :: nat
  dt_day :: nat
  dt_hour :: nat
  dt_minute :: nat
  dt_second :: nat

definition is_leap :: "nat \<Rightarrow> bool" where
  "is_leap y \<longleftrightarrow> y mod 4 = 0 \<and> (y mod 100 \<noteq> 0 \<or> y mod 400 = 0)"

definition days_in_month :: "nat \<Rightarrow> nat \<Rightarrow> nat" where
  "days_in_month y m =
     (if m = 2 then (if is_leap y then 29 else 28)
      else if m = 4 \<or> m = 6 \<or> m = 9 \<or> m = 11 then 30 else 31)"

text \<open>
  The values a \<^verbatim>\<open>datetime\<close> can hold (\<^verbatim>\<open>MINYEAR = 1\<close>, \<^verbatim>\<open>MAXYEAR = 9999\<close>); its
  constructor raises \<^verbatim>\<open>ValueError\<close> on anything else. Microseconds are left out: no
  format of the program prints them.
\<close>

definition valid_datetime :: "datetime \<Rightarrow> bool" where
  "valid_datetime dt \<longleftrightarrow>
     1 \<le> dt_year dt \<and> dt_year dt \<le> 9999 \<and>
     1 \<le> dt_month dt \<and> dt_month dt \<le> 12 \<and>
     1 \<le> dt_day dt \<and> dt_day dt \<le> days_in_month (dt_year dt) (dt_month dt) \<and>
     dt_hour dt < 24 \<and> dt_minute dt < 60 \<and> dt_second dt < 60"

text \<open>
  \<^verbatim>\<open>datetime.toordinal\<close>: the day number, 1 for 0001-01-01, by the formulas of
  \<^verbatim>\<open>_days_before_year\<close> and \<^verbatim>\<open>_days_before_month\<close>.
\<close>

definition days_before_year :: "nat \<Rightarrow> nat" where
  "days_before_year y =
     (let p = y - 1 in p * 365 + p div 4 - p div 100 + p div 400)"

definition days_before_month :: "nat \<Rightarrow> nat \<Rightarrow> nat" where
  "days_before_month y m =
     [0, 0, 31, 59, 90, 120, 151, 181, 212, 243, 273, 304, 334] ! m
       + (if 2 < m \<and> is_leap y then 1 else 0)"

definition toordinal :: "datetime \<Rightarrow> nat" where
  "toordinal dt =
     days_before_year (dt_year dt) + days_before_month (dt_year dt) (dt_month dt) + dt_day dt"

text \<open>Seconds since the start of 0001-01-01: the absolute time a \<^verbatim>\<open>datetime\<close> denotes.\<close>

definition to_seconds :: "datetime \<Rightarrow> nat" where
  "to_seconds dt =
     (toordinal dt - 1) * 86400 + dt_hour dt * 3600 + dt_minute dt * 60 + dt_second dt"

text \<open>
  \<^verbatim>\<open>dt - timedelta(days=n)\<close>. Python computes the ordinal, subtracts, and raises
  \<^verbatim>\<open>OverflowError\<close> unless the result is a day of year one or later; the time of day is
  kept. The date of the smaller ordinal is reached here by stepping back one calendar day
  at a time.
\<close>

definition prev_day :: "datetime \<Rightarrow> datetime" where
  "prev_day dt =
     (if 1 < dt_day dt then dt\<lparr>dt_day := dt_day dt - 1\<rparr>
      else if 1 < dt_month dt
        then dt\<lparr>dt_month := dt_month dt - 1,
                dt_day := days_in_month (dt_year dt) (dt_month dt - 1)\<rparr>
      else dt\<lparr>dt_year := dt_year dt - 1, dt_month := 12, dt_day := 31\<rparr>)"

definition minus_days :: "datetime \<Rightarrow> nat \<Rightarrow> py_error + datetime" where
  "minus_days dt n =
     (if toordinal dt \<le> n then Inl OverflowError else Inr ((prev_day ^^ n) dt))"

subsection \<open>\<^verbatim>\<open>strftime\<close>\<close>

text \<open>
  The directives the program uses. \<^verbatim>\<open>%Y\<close> is printed with four digits (what the C
  library of Windows, the program's platform, does for every year, and every platform
  does from year 1000 on).
\<close>

definition directive :: "char \<Rightarrow> datetime \<Rightarrow> string" where
  "directive c dt =
     (if c = CHR ''Y'' then pad4 (dt_year dt)
      else if c = CHR ''y'' then pad2 (dt_year dt mod 100)
      else if c = CHR ''m'' then pad2 (dt_month dt)
      else if c = CHR ''d'' then pad2 (dt_day dt)
      else if c = CHR ''H'' then pad2 (dt_hour dt)
      else if c = CHR ''M'' then pad2 (dt_minute dt)
      else if c = CHR ''S'' then pad2 (dt_second dt)
      else [CHR ''%'', c])"

fun strftime :: "datetime \<Rightarrow> string \<Rightarrow> string" where
  "strftime dt [] = []"
| "strftime dt [c] = [c]"
| "strftime dt (c # d # fmt) =
     (if c = CHR ''%'' then directive d dt @ strftime dt fmt
      else c # strftime dt (d # fmt))"

definition iso_format :: string where
  "iso_format = ''%Y-%m-%d %H:%M:%S''"

subsection \<open>\<^verbatim>\<open>strptime\<close>\<close>

text \<open>
  \<^verbatim>\<open>datetime.strptime\<close> turns the format into a regular expression and matches the
  whole input: a run of white space in the format is \<^verbatim>\<open>\s+\<close>, a directive is a group of
  digits, anything else is itself. The groups of the directives used here are
  \<^verbatim>\<open>%Y: \d\d\d\d\<close>, \<^verbatim>\<open>%y: \d\d\<close>, \<^verbatim>\<open>%m: 1[0-2]|0[1-9]|[1-9]\<close>,
  \<^verbatim>\<open>%d: 3[0-1]|[1-2]\d|0[1-9]|[1-9]| [1-9]\<close>, \<^verbatim>\<open>%H: 2[0-3]|[0-1]\d|\d\<close>,
  \<^verbatim>\<open>%M: [0-5]\d|\d\<close> and \<^verbatim>\<open>%S: 6[0-1]|[0-5]\d|\d\<close>. In each format of the program a
  group is followed by a character that is no digit, or by the end, so a group matches
  exactly when the whole run of digits in front of it is one of its alternatives.
  Fields that the format does not name keep the defaults 1900-01-01 00:00:00, and the
  fields found must form a \<^verbatim>\<open>datetime\<close> (else \<^verbatim>\<open>ValueError\<close>, which is also what a failed
  match raises).
\<close>

definition group_ok :: "char \<Rightarrow> string \<Rightarrow> bool" where
  "group_ok c ds =
     (let n = nat_of_digits ds; l = length ds in
      if c = CHR ''Y'' then l = 4
      else if c = CHR ''y'' then l = 2
      else if c = CHR ''m'' then (l = 1 \<or> l = 2) \<and> 1 \<le> n \<and> n \<le> 12
      else if c = CHR ''d'' then (l = 1 \<or> l = 2) \<and> 1 \<le> n \<and> n \<le> 31
      else if c = CHR ''H'' then (l = 1 \<or> l = 2) \<and> n \<le> 23
      else if c = CHR ''M'' then (l = 1 \<or> l = 2) \<and> n \<le> 59
      else if c = CHR ''S'' then (l = 1 \<or> l = 2) \<and> n \<le> 61
      else False)"

definition set_field :: "char \<Rightarrow> nat \<Rightarrow> datetime \<Rightarrow> datetime" where
  "set_field c n dt =
     (if c = CHR ''Y'' then dt\<lparr>dt_year := n\<rparr>
      else if c = CHR ''y'' then dt\<lparr>dt_year := (if n \<le> 68 then 2000 + n else 1900 + n)\<rparr>
      else if c = CHR ''m'' then dt\<lparr>dt_month := n\<rparr>
      else if c = CHR ''d'' then dt\<lparr>dt_day := n\<rparr>
      else if c = CHR ''H'' then dt\<lparr>dt_hour := n\<rparr>
      else if c = CHR ''M'' then dt\<lparr>dt_minute := n\<rparr>
      else dt\<lparr>dt_second := n\<rparr>)"

text \<open>The day group's last alternative: one space, then one digit from 1 to 9.\<close>

definition space_day :: "char \<Rightarrow> string \<Rightarrow> bool" where
  "space_day c s \<longleftrightarrow>
     c = CHR ''d'' \<and>
     (case s of
        sp # s' \<Rightarrow> sp = CHR '' '' \<and>
          (let ds = takeWhile is_digit s' in length ds = 1 \<and> 1 \<le> nat_of_digits ds)
      | [] \<Rightarrow> False)"

datatype fmt_item = Dir char | Space | Lit char

fun tokens :: "string \<Rightarrow> fmt_item list" where
  "tokens [] = []"
| "tokens [c] = [if c = CHR ''%'' then Dir c else if is_space c then Space else Lit c]"
| "tokens (c # d # fmt) =
     (if c = CHR ''%'' then Dir d # tokens fmt
      else if is_space c then (if is_space d then tokens (d # fmt) else Space # tokens (d # fmt))
      else Lit c # tokens (d # fmt))"

fun match_format :: "fmt_item list \<Rightarrow> string \<Rightarrow> datetime \<Rightarrow> datetime option" where
  "match_format [] s dt = (if s = [] then Some dt else None)"
| "match_format (Dir d # fmt) s dt =
     (let s1 = (if space_day d s then tl s else s);
          ds = takeWhile is_digit s1
      in if group_ok d ds
         then match_format fmt (dropWhile is_digit s1) (set_field d (nat_of_digits ds) dt)
         else None)"
| "match_format (Space # fmt) s dt =
     (case s of
        [] \<Rightarrow> None
      | x # s' \<Rightarrow> if is_space x then match_format fmt (dropWhile is_space s') dt else None)"
| "match_format (Lit c # fmt) s dt =
     (case s of
        [] \<Rightarrow> None
      | x # s' \<Rightarrow> if x = c then match_format fmt s' dt else None)"

definition strptime :: "string \<Rightarrow> string \<Rightarrow> py_error + datetime" where
  "strptime s fmt =
     (case match_format (tokens fmt) s
             \<lparr>dt_year = 1900, dt_month = 1, dt_day = 1, dt_hour = 0, dt_minute = 0, dt_second = 0\<rparr> of
        None \<Rightarrow> Inl ValueError
      | Some dt \<Rightarrow> if valid_datetime dt then Inr dt else Inl ValueError)"

section \<open>Utilities of the program\<close>

text \<open>
  \<^verbatim>\<open>parse_it_date\<close> strips the text and tries nine formats in three groups, in this order;
  the first that parses wins, and \<^verbatim>\<open>ValueError\<close> is raised when none does.
\<close>

definition date_formats :: "string list" where
  "date_formats =
     [''%Y-%m-%d %H:%M:%S'', ''%Y-%m-%d %H:%M'', ''%Y-%m-%d'',
      ''%d/%m/%Y %H:%M:%S'', ''%d/%m/%Y %H:%M'', ''%d/%m/%Y'',
      ''%d/%m/%y %H:%M:%S'', ''%d/%m/%y %H:%M'', ''%d/%m/%y'']"

fun try_formats :: "string \<Rightarrow> string list \<Rightarrow> py_error + datetime" where
  "try_formats s [] = Inl ValueError"
| "try_formats s (fmt # fmts) =
     (case strptime s fmt of Inr dt \<Rightarrow> Inr dt | Inl e \<Rightarrow> try_formats s fmts)"

definition parse_it_date :: "string \<Rightarrow> py_error + datetime" where
  "parse_it_date s = try_formats (strip s) date_formats"

definition normalize_to_iso :: "string \<Rightarrow> bool \<Rightarrow> py_error + string" where
  "normalize_to_iso s start_of_day =
     (case parse_it_date s of
        Inl e \<Rightarrow> Inl e
      | Inr dt \<Rightarrow>
          (let only_date = ((length (strip s) = 8 \<or> length (strip s) = 10)
                              \<and> (CHR ''/'' \<in> set s \<or> CHR ''-'' \<in> set s));
               dt' = (if only_date
                      then (if start_of_day
                            then dt\<lparr>dt_hour := 0, dt_minute := 0, dt_second := 0\<rparr>
                            else dt\<lparr>dt_hour := 23, dt_minute := 59, dt_second := 59\<rparr>)
                      else dt)
           in Inr (strftime dt' iso_format)))"

text \<open>
  \<^verbatim>\<open>it_ts_display\<close>: the display form \<^verbatim>\<open>DD/MM/YY HH:MM\<close>, or the text itself when it
  does not parse.
\<close>

definition it_ts_display :: "string \<Rightarrow> string" where
  "it_ts_display ts_iso =
     (case strptime ts_iso iso_format of
        Inr dt \<Rightarrow> strftime dt ''%d/%m/%y %H:%M''
      | Inl e \<Rightarrow> ts_iso)"

section \<open>The record store (table \<^verbatim>\<open>logs\<close>)\<close>

text \<open>
  A value as \<^verbatim>\<open>sqlite3\<close> hands it over: SQLite keeps a text that is no number in a
  \<^verbatim>\<open>REAL\<close> column as text, so a column read back is one of the five storage classes.
  \<^typ>\<open>'f\<close> is the type of IEEE doubles, which the embedding does not fix.
\<close>

datatype 'f sqlval = SqlNull | SqlInt int | SqlReal 'f | SqlText string | SqlBlob string

record 'f reading =
  timestamp :: string
  o2 :: "'f sqlval"
  rh1 :: "'f sqlval"
  temp1 :: "'f sqlval"
  rh2 :: "'f sqlval"
  temp2 :: "'f sqlval"
  elio_ok :: string
  aspirazione_ok :: string
  operatore :: string

text \<open>
  The table is the list of its rows in insertion order (\<^verbatim>\<open>id\<close> is autoincremented).
  \<^verbatim>\<open>init_db\<close> creates the table when it is missing and changes no row.
\<close>

type_synonym 'f store = "'f reading list"

definition init_db :: "'f store \<Rightarrow> 'f store" where
  "init_db db = db"

text \<open>
  \<^verbatim>\<open>insert_record\<close> stamps the row with \<^verbatim>\<open>datetime.now()\<close>, here the argument \<open>now\<close>,
  and returns the stamp with the new table. The values are the floats \<^verbatim>\<open>parse_float\<close>
  produced.
\<close>

definition insert_record ::
  "datetime \<Rightarrow> 'f \<Rightarrow> 'f \<Rightarrow> 'f \<Rightarrow> 'f \<Rightarrow> 'f \<Rightarrow> string \<Rightarrow> string \<Rightarrow> string \<Rightarrow> 'f store
     \<Rightarrow> string \<times> 'f store" where
  "insert_record now v_o2 v_rh1 v_temp1 v_rh2 v_temp2 v_elio v_asp v_op db =
     (let now_iso = strftime now iso_format in
      (now_iso,
       db @ [\<lparr>timestamp = now_iso, o2 = SqlReal v_o2, rh1 = SqlReal v_rh1,
               temp1 = SqlReal v_temp1, rh2 = SqlReal v_rh2, temp2 = SqlReal v_temp2,
               elio_ok = v_elio, aspirazione_ok = v_asp, operatore = v_op\<rparr>]))"

text \<open>
  \<^verbatim>\<open>fetch_records(start, end)\<close>. A bound that is \<^verbatim>\<open>None\<close> or empty is no bound. SQLite
  compares the \<^verbatim>\<open>TEXT\<close> column with the bound byte by byte (the order of
  \<^typ>\<open>string\<close>), \<^verbatim>\<open>BETWEEN\<close> has both ends included, and \<^verbatim>\<open>ORDER BY timestamp ASC\<close> sorts
  by the same order (rows with equal stamps are left in insertion order here).
\<close>

definition truthy :: "string option \<Rightarrow> bool" where
  "truthy a \<longleftrightarrow> (case a of None \<Rightarrow> False | Some s \<Rightarrow> s \<noteq> [])"

definition fetch_records ::
  "string option \<Rightarrow> string option \<Rightarrow> 'f store \<Rightarrow> py_error + 'f reading list" where
  "fetch_records start stop db =
     (if truthy start \<and> truthy stop then
        (case normalize_to_iso (the start) True of
           Inl e \<Rightarrow> Inl e
         | Inr lo \<Rightarrow>
             (case normalize_to_iso (the stop) False of
                Inl e \<Rightarrow> Inl e
              | Inr hi \<Rightarrow>
                  Inr (sort_key timestamp
                         (filter (\<lambda>r. lo \<le> timestamp r \<and> timestamp r \<le> hi) db))))
      else if truthy start then
        (case normalize_to_iso (the start) True of
           Inl e \<Rightarrow> Inl e
         | Inr lo \<Rightarrow> Inr (sort_key timestamp (filter (\<lambda>r. lo \<le> timestamp r) db)))
      else if truthy stop then
        (case normalize_to_iso (the stop) False of
           Inl e \<Rightarrow> Inl e
         | Inr hi \<Rightarrow> Inr (sort_key timestamp (filter (\<lambda>r. timestamp r \<le> hi) db)))
      else Inr (sort_key timestamp db))"

text \<open>
  \<^verbatim>\<open>fetch_last_record\<close>: \<^verbatim>\<open>ORDER BY timestamp DESC LIMIT 1\<close>, or \<^verbatim>\<open>None\<close> on an empty
  table. SQL leaves open which of several rows with the greatest stamp comes first; the
  model takes the one inserted last.
\<close>

definition fetch_last_record :: "'f store \<Rightarrow> 'f reading option" where
  "fetch_last_record db =
     (case rev (sort_key timestamp db) of [] \<Rightarrow> None | r # rs \<Rightarrow> Some r)"

section \<open>Snapshot aggregation\<close>

text \<open>
  The first lines of \<^verbatim>\<open>generate_dashboard_html\<close> after the directory is made: the last
  row, the start of the window thirty days before it, and the rows of the window.
\<close>

record 'f snapshot =
  latest :: "'f reading"
  readings :: "'f reading list"

definition aggregate :: "'f store \<Rightarrow> py_error + 'f snapshot" where
  "aggregate db =
     (case fetch_last_record db of
        None \<Rightarrow> Inl (RuntimeError ''Nessun record presente nel database.'')
      | Some l \<Rightarrow>
          (case strptime (timestamp l) iso_format of
             Inl e \<Rightarrow> Inl e
           | Inr last_dt \<Rightarrow>
               (case minus_days last_dt 30 of
                  Inl e \<Rightarrow> Inl e
                | Inr start_dt \<Rightarrow>
                    (case fetch_records (Some (strftime start_dt iso_format))
                                        (Some (strftime last_dt iso_format)) db of
                       Inl e \<Rightarrow> Inl e
                     | Inr records \<Rightarrow> Inr \<lparr>latest = l, readings = records\<rparr>))))"

text \<open>
  \<^verbatim>\<open>datetime\<close> values compare field by field, the year first.
\<close>

definition date_less :: "datetime \<Rightarrow> datetime \<Rightarrow> bool" where
  "date_less a b \<longleftrightarrow>
     dt_year a < dt_year b \<or> dt_year a = dt_year b \<and>
       (dt_month a < dt_month b \<or> dt_month a = dt_month b \<and> dt_day a < dt_day b)"

definition same_date :: "datetime \<Rightarrow> datetime \<Rightarrow> bool" where
  "same_date a b \<longleftrightarrow>
     dt_year a = dt_year b \<and> dt_month a = dt_month b \<and> dt_day a = dt_day b"

definition time_less :: "datetime \<Rightarrow> datetime \<Rightarrow> bool" where
  "time_less a b \<longleftrightarrow>
     dt_hour a < dt_hour b \<or> dt_hour a = dt_hour b \<and>
       (dt_minute a < dt_minute b \<or> dt_minute a = dt_minute b \<and> dt_second a < dt_second b)"

definition dt_less :: "datetime \<Rightarrow> datetime \<Rightarrow> bool" where
  "dt_less a b \<longleftrightarrow> date_less a b \<or> same_date a b \<and> time_less a b"

section \<open>Canonical stamps\<close>

text \<open>
  A stamp is canonical when it is what \<^verbatim>\<open>strftime("%Y-%m-%d %H:%M:%S")\<close> prints for some
  \<^verbatim>\<open>datetime\<close>: it parses, and printing the parsed value gives it back. \<open>seconds_of\<close> is
  the absolute time a stamp denotes.
\<close>

definition canonical :: "string \<Rightarrow> bool" where
  "canonical ts \<longleftrightarrow>
     (case strptime ts iso_format of
        Inr dt \<Rightarrow> strftime dt iso_format = ts
      | Inl e \<Rightarrow> False)"

definition seconds_of :: "string \<Rightarrow> nat" where
  "seconds_of ts =
     (case strptime ts iso_format of Inr dt \<Rightarrow> to_seconds dt | Inl e \<Rightarrow> 0)"

definition store_canonical :: "'f store \<Rightarrow> bool" where
  "store_canonical db \<longleftrightarrow> list_all (\<lambda>r. canonical (timestamp r)) db"

text \<open>
  \<^verbatim>\<open>App.restore_database\<close> copies a file the user chooses over the database file, after
  a confirmation: \<open>chosen\<close> is the table of that file (\<^term>\<open>None\<close> when the dialog
  is cancelled or the file does not exist). The rows are taken as they are.
\<close>

definition restore_database :: "'f store option \<Rightarrow> bool \<Rightarrow> 'f store \<Rightarrow> 'f store" where
  "restore_database chosen confirmed db =
     (case chosen of
        None \<Rightarrow> db
      | Some backup \<Rightarrow> if confirmed then backup else db)"

text \<open>
  A row with the values of the scenario of the specification and a given stamp, for the
  concrete stores of the examples below.
\<close>

definition reading_at :: "string \<Rightarrow> unit reading" where
  "reading_at ts =
     \<lparr>timestamp = ts, o2 = SqlInt 21, rh1 = SqlInt 45, temp1 = SqlInt 21, rh2 = SqlInt 44,
      temp2 = SqlInt 21, elio_ok = ''SI'', aspirazione_ok = ''NO'', operatore = ''MRossi''\<rparr>"

definition scenario_time :: datetime where
  "scenario_time =
     \<lparr>dt_year = 2024, dt_month = 1, dt_day = 10, dt_hour = 8, dt_minute = 0, dt_second = 0\<rparr>"

section \<open>The tool resolver\<close>

text \<open>
  What the resolver and the dispatcher read from the machine: \<^verbatim>\<open>shutil.which\<close>, the
  environment variables, the directory and file tests, the path separator and the
  platform. A subprocess answers through \<open>run\<close>, which may depend on everything that was
  invoked before (see the dispatcher below).
\<close>

datatype stream = PIPE | STDOUT | PyNone

record popen_call =
  pc_cmd :: "string list"
  pc_shell :: bool
  pc_stdin :: stream
  pc_stdout :: stream
  pc_stderr :: stream
  pc_text :: bool
  pc_hidden :: bool

datatype event = Invoke popen_call "string option" nat | Kill popen_call

datatype run_outcome =
    Exited int string
  | TimeoutExpired
  | FileNotFoundError
  | OtherException string

record world =
  which :: "string \<Rightarrow> string option"
  environ :: "string \<Rightarrow> string option"
  isdir :: "string \<Rightarrow> bool"
  isfile :: "string \<Rightarrow> bool"
  os_sep :: char
  win :: bool
  run :: "event list \<Rightarrow> popen_call \<Rightarrow> string option \<Rightarrow> nat \<Rightarrow> run_outcome"

text \<open>
  \<^verbatim>\<open>os.path.join\<close> of a directory and a relative name: the name alone after an empty
  directory, else the two with one separator between them.
\<close>

definition path_join :: "char \<Rightarrow> string \<Rightarrow> string \<Rightarrow> string" where
  "path_join sep a b =
     (if a = [] then b else if last a = sep then a @ b else a @ sep # b)"

text \<open>\<^verbatim>\<open>env.get(k) or ""\<close>, and Python's \<^verbatim>\<open>or\<close> on texts.\<close>

definition env_get :: "world \<Rightarrow> string \<Rightarrow> string" where
  "env_get w k = (case environ w k of None \<Rightarrow> [] | Some v \<Rightarrow> v)"

definition py_or :: "string \<Rightarrow> string \<Rightarrow> string" where
  "py_or a b = (if a \<noteq> [] then a else b)"

text \<open>\<^verbatim>\<open>dict.fromkeys(dirs)\<close>: the first occurrence of each entry, in order.\<close>

definition dedup :: "'a list \<Rightarrow> 'a list" where
  "dedup xs = foldl (\<lambda>acc x. if x \<in> set acc then acc else acc @ [x]) [] xs"

definition possible_node_dirs :: "world \<Rightarrow> string list" where
  "possible_node_dirs w =
     (let userprofile = py_or (env_get w ''USERPROFILE'') (env_get w ''HOMEPATH'');
          appdata = env_get w ''APPDATA'';
          localapp = env_get w ''LOCALAPPDATA'';
          program_files = env_get w ''ProgramFiles'';
          program_files_x86 = env_get w ''ProgramFiles(x86)'';
          dirs =
            (if appdata \<noteq> [] then [path_join (os_sep w) appdata ''npm''] else []) @
            (if localapp \<noteq> []
             then [path_join (os_sep w) (path_join (os_sep w) localapp ''Programs'') ''npm'',
                   path_join (os_sep w) (path_join (os_sep w) localapp ''Programs'') ''nodejs'']
             else []) @
            (if program_files \<noteq> [] then [path_join (os_sep w) program_files ''nodejs''] else []) @
            (if program_files_x86 \<noteq> [] then [path_join (os_sep w) program_files_x86 ''nodejs''] else []) @
            (if userprofile \<noteq> []
             then [path_join (os_sep w) (path_join (os_sep w) (path_join (os_sep w) userprofile ''AppData'') ''Roaming'') ''npm'',
                   path_join (os_sep w) (path_join (os_sep w) userprofile ''.npm'') ''_npx'']
             else [])
      in filter (\<lambda>d. d \<noteq> [] \<and> isdir w d) (dedup dirs))"

text \<open>
  \<^verbatim>\<open>_which_executable(names)\<close>. The first loop asks \<^verbatim>\<open>which\<close> for every name; the second
  goes through the names, for each name through the directories, for each directory
  through the exe_suffixes, and returns the first candidate that is a file. The body is
  \<open>which_executable_in\<close>, with the directory list as an argument.
\<close>

fun which_first :: "world \<Rightarrow> string list \<Rightarrow> string option" where
  "which_first w [] = None"
| "which_first w (n # ns) =
     (case which w n of
        Some p \<Rightarrow> if p \<noteq> [] then Some p else which_first w ns
      | None \<Rightarrow> which_first w ns)"

definition exe_suffixes :: "string list" where
  "exe_suffixes = ['''', ''.cmd'', ''.exe'', ''.bat'']"

fun probe_suffixes :: "world \<Rightarrow> string \<Rightarrow> string \<Rightarrow> string list \<Rightarrow> string option" where
  "probe_suffixes w d base [] = None"
| "probe_suffixes w d base (suf # sufs) =
     (let cand = path_join (os_sep w) d (base @ suf)
      in if isfile w cand then Some cand else probe_suffixes w d base sufs)"

fun probe_dirs :: "world \<Rightarrow> string \<Rightarrow> string list \<Rightarrow> string option" where
  "probe_dirs w base [] = None"
| "probe_dirs w base (d # ds) =
     (case probe_suffixes w d base exe_suffixes of
        Some cand \<Rightarrow> Some cand
      | None \<Rightarrow> probe_dirs w base ds)"

fun probe_names :: "world \<Rightarrow> string list \<Rightarrow> string list \<Rightarrow> string option" where
  "probe_names w dirs [] = None"
| "probe_names w dirs (base # names) =
     (case probe_dirs w base dirs of
        Some cand \<Rightarrow> Some cand
      | None \<Rightarrow> probe_names w dirs names)"

definition which_executable_in :: "world \<Rightarrow> string list \<Rightarrow> string list \<Rightarrow> string option" where
  "which_executable_in w dirs names =
     (case which_first w names of
        Some p \<Rightarrow> Some p
      | None \<Rightarrow> probe_names w dirs names)"

definition which_executable :: "world \<Rightarrow> string list \<Rightarrow> string option" where
  "which_executable w names = which_executable_in w (possible_node_dirs w) names"

text \<open>
  The resolver in the words of the specification: the candidates in the order "the search
  path for each name, then each name in each directory with each suffix", and the first
  candidate that exists.
\<close>

definition path_candidates :: "world \<Rightarrow> string list \<Rightarrow> string option list" where
  "path_candidates w names =
     map (\<lambda>n. case which w n of Some p \<Rightarrow> if p \<noteq> [] then Some p else None | None \<Rightarrow> None) names"

definition dir_candidates :: "world \<Rightarrow> string list \<Rightarrow> string list \<Rightarrow> string option list" where
  "dir_candidates w dirs names =
     concat (map (\<lambda>base. concat (map (\<lambda>d. map (\<lambda>suf.
        (let cand = path_join (os_sep w) d (base @ suf) in if isfile w cand then Some cand else None))
        exe_suffixes) dirs)) names)"

definition first_found :: "string option list \<Rightarrow> string option" where
  "first_found cs = (case filter (\<lambda>c. c \<noteq> None) cs of [] \<Rightarrow> None | c # rest \<Rightarrow> c)"

definition resolve_spec :: "world \<Rightarrow> string list \<Rightarrow> string list \<Rightarrow> string option" where
  "resolve_spec w dirs names = first_found (path_candidates w names @ dir_candidates w dirs names)"

text \<open>A directory contains a match when some name with some suffix is a file in it.\<close>

definition dir_matches :: "world \<Rightarrow> string list \<Rightarrow> string \<Rightarrow> bool" where
  "dir_matches w names d \<longleftrightarrow>
     (\<exists>base\<in>set names. \<exists>suf\<in>set exe_suffixes. isfile w (path_join (os_sep w) d (base @ suf)))"

section \<open>Subprocesses and the deploy dispatcher\<close>

text \<open>
  The keyword arguments \<^verbatim>\<open>_popen_no_window\<close> looks at: \<^term>\<open>None\<close> is a key that is
  absent. It sets \<^verbatim>\<open>shell\<close> to \<^verbatim>\<open>False\<close> unless given, captures the output unless told
  otherwise, and hides the window on Windows.
\<close>

record kwargs =
  kw_shell :: "bool option"
  kw_stdin :: "stream option"
  kw_stdout :: "stream option"
  kw_stderr :: "stream option"
  kw_text :: bool
  kw_input :: "string option"

definition popen_no_window :: "world \<Rightarrow> string list \<Rightarrow> kwargs \<Rightarrow> popen_call" where
  "popen_no_window w cmd kw =
     \<lparr>pc_cmd = cmd,
      pc_shell = (case kw_shell kw of None \<Rightarrow> False | Some b \<Rightarrow> b),
      pc_stdin = (case kw_stdin kw of
                    None \<Rightarrow> if kw_text kw \<and> kw_input kw \<noteq> None then PIPE else PyNone
                  | Some s \<Rightarrow> s),
      pc_stdout = (case kw_stdout kw of None \<Rightarrow> PIPE | Some s \<Rightarrow> s),
      pc_stderr = (case kw_stderr kw of None \<Rightarrow> STDOUT | Some s \<Rightarrow> s),
      pc_text = kw_text kw,
      pc_hidden = win w\<rparr>"

text \<open>
  \<^verbatim>\<open>_run_subprocess(cmd, input_text, timeout)\<close> with the log of what was invoked so far.
  The call is logged, then the machine answers: the child exits with a code and its
  combined output, or \<^verbatim>\<open>communicate\<close> times out (the child is killed), or the executable
  is missing, or something else is raised. Each case returns a code and a text. The
  environment and the working directory that are passed on do not enter the model.
\<close>

definition run_subprocess ::
  "world \<Rightarrow> string list \<Rightarrow> string option \<Rightarrow> nat \<Rightarrow> event list \<Rightarrow> (int \<times> string) \<times> event list" where
  "run_subprocess w cmd input_text timeout log =
     (let call = popen_no_window w cmd
                   \<lparr>kw_shell = None,
                    kw_stdin = Some (if input_text \<noteq> None then PIPE else PyNone),
                    kw_stdout = Some PIPE, kw_stderr = Some STDOUT,
                    kw_text = True, kw_input = None\<rparr>;
          log1 = log @ [Invoke call input_text timeout]
      in case run w log call input_text timeout of
           Exited rc out \<Rightarrow> ((rc, out), log1)
         | TimeoutExpired \<Rightarrow> ((1, ''Timeout esecuzione comando.''), log1 @ [Kill call])
         | FileNotFoundError \<Rightarrow> ((1, ''Comando non trovato.''), log1)
         | OtherException e \<Rightarrow> ((1, ''Errore esecuzione comando: '' @ e), log1))"

definition SURGE_DOMAIN :: string where "SURGE_DOMAIN = []"
definition SURGE_EMAIL :: string where "SURGE_EMAIL = []"
definition SURGE_PASSWORD :: string where "SURGE_PASSWORD = []"

definition nl :: string where "nl = [CHR 0x0A]"

text \<open>\<^verbatim>\<open>str.lower\<close> on ASCII, \<^verbatim>\<open>str(rc)\<close>, and \<^verbatim>\<open>a in b\<close> on texts.\<close>

definition lower :: "string \<Rightarrow> string" where
  "lower s = map (\<lambda>c. if CHR ''A'' \<le> c \<and> c \<le> CHR ''Z'' then char_of (of_char c + (32::nat)) else c) s"

fun str_of_nat :: "nat \<Rightarrow> string" where
  "str_of_nat n =
     (if n < 10 then [digit_char n] else str_of_nat (n div 10) @ [digit_char (n mod 10)])"

definition str_of_int :: "int \<Rightarrow> string" where
  "str_of_int i = (if i < 0 then CHR ''-'' # str_of_nat (nat (- i)) else str_of_nat (nat i))"

definition contains :: "string \<Rightarrow> string \<Rightarrow> bool" where
  "contains part whole \<longleftrightarrow> sublist part whole"

definition login_input :: string where
  "login_input = SURGE_EMAIL @ nl @ SURGE_PASSWORD @ nl"

definition surge_login_if_needed ::
  "world \<Rightarrow> string \<Rightarrow> event list \<Rightarrow> (bool \<times> string) \<times> event list" where
  "surge_login_if_needed w surge_cmd log =
     (case run_subprocess w [surge_cmd, ''whoami''] None 30 log of
        ((rc, out), log1) \<Rightarrow>
          if rc = 0 \<and> out \<noteq> [] \<and>
             (contains ''email'' (lower out) \<or> contains ''you are'' (lower out)
              \<or> contains ''logged'' (lower out))
          then ((True, out), log1)
          else
            (case run_subprocess w [surge_cmd, ''login''] (Some login_input) 60 log1 of
               ((rc2, out2), log2) \<Rightarrow>
                 (case run_subprocess w [surge_cmd, ''whoami''] None 30 log2 of
                    ((rc3, out3), log3) \<Rightarrow>
                      ((rc2 = 0 \<or> rc3 = 0, out @ nl @ out2 @ nl @ out3), log3))))"

text \<open>
  \<^verbatim>\<open>deploy_to_surge(folder)\<close>, in its two parts. The first part tries \<^verbatim>\<open>surge\<close>: it ends
  the dispatch with the output of the deploy when that exits with 0, and else hands the
  text \<^verbatim>\<open>last\<close> to the second part. The second part tries \<^verbatim>\<open>npx surge\<close>.
\<close>

datatype attempt = Done string | Continue string

definition direct_attempt :: "world \<Rightarrow> string \<Rightarrow> event list \<Rightarrow> attempt \<times> event list" where
  "direct_attempt w folder log =
     (let surge_cmd = which_executable w [''surge''] in
      if truthy surge_cmd then
        (case surge_login_if_needed w (the surge_cmd) log of
           ((ok_login, log_text), log1) \<Rightarrow>
             (case run_subprocess w [the surge_cmd, folder, SURGE_DOMAIN, ''--yes''] None 240 log1 of
                ((rc, out), log2) \<Rightarrow>
                  if rc = 0 then (Done out, log2)
                  else (Continue (''[surge] rc='' @ str_of_int rc @ nl @ out), log2)))
      else (Continue ''[surge] non trovato; provo npx'', log))"

definition npx_login :: "world \<Rightarrow> string \<Rightarrow> event list \<Rightarrow> event list" where
  "npx_login w npx_cmd log =
     (case run_subprocess w [npx_cmd, ''surge'', ''whoami''] None 60 log of
        ((rc_login, out_login), log1) \<Rightarrow>
          if rc_login \<noteq> 0 \<or> contains ''not logged'' (lower out_login)
             \<or> contains ''no token'' (lower out_login)
          then snd (run_subprocess w [npx_cmd, ''surge'', ''login''] (Some login_input) 120 log1)
          else log1)"

definition deploy_to_surge :: "world \<Rightarrow> string \<Rightarrow> event list \<Rightarrow> (bool \<times> string) \<times> event list" where
  "deploy_to_surge w folder log =
     (case direct_attempt w folder log of
        (Done out, log1) \<Rightarrow> ((True, out), log1)
      | (Continue last_text, log1) \<Rightarrow>
          (let npx_cmd = which_executable w [''npx''] in
           if \<not> truthy npx_cmd then
             ((False, last_text @ nl @ ''[npx] non trovato. Installa Node.js (npx) o aggiungi surge alla PATH.''),
              log1)
           else
             (case run_subprocess w [the npx_cmd, ''surge'', folder, SURGE_DOMAIN, ''--yes''] None 300
                     (npx_login w (the npx_cmd) log1) of
                ((rc2, out2), log2) \<Rightarrow>
                  if rc2 = 0 then ((True, out2), log2)
                  else ((False, last_text @ nl @ ''[npx surge] rc='' @ str_of_int rc2 @ nl @ out2), log2))))"

text \<open>
  What the specification asks of every invocation: no shell, both streams captured
  together, a timeout of at most five minutes.
\<close>

fun safe_event :: "event \<Rightarrow> bool" where
  "safe_event (Invoke call inp t) \<longleftrightarrow>
     \<not> pc_shell call \<and> pc_stdout call = PIPE \<and> pc_stderr call = STDOUT \<and> 0 < t \<and> t \<le> 300"
| "safe_event (Kill call) \<longleftrightarrow> True"

definition safely_extends :: "event list \<Rightarrow> event list \<Rightarrow> bool" where
  "safely_extends log log' \<longleftrightarrow>
     length log \<le> length log' \<and> take (length log) log' = log
     \<and> list_all safe_event (drop (length log) log')"

text \<open>
  Three machines for the examples: on the first nothing is installed; on the second both
  tools are on the search path, no session can be confirmed, \<^verbatim>\<open>surge\<close> fails to deploy
  and \<^verbatim>\<open>npx surge\<close> deploys; on the third \<^verbatim>\<open>surge.cmd\<close> lies in one install directory.
\<close>

definition bare_world :: world where
  "bare_world =
     \<lparr>which = (\<lambda>n. None), environ = (\<lambda>k. None), isdir = (\<lambda>d. False),
      isfile = (\<lambda>p. False), os_sep = CHR ''/'', win = False,
      run = (\<lambda>log call inp t. FileNotFoundError)\<rparr>"

definition fallback_world :: world where
  "fallback_world =
     \<lparr>which = (\<lambda>n. if n = ''surge'' then Some ''/bin/surge''
                     else if n = ''npx'' then Some ''/bin/npx'' else None),
      environ = (\<lambda>k. None), isdir = (\<lambda>d. False), isfile = (\<lambda>p. False),
      os_sep = CHR ''/'', win = False,
      run = (\<lambda>log call inp t.
               if pc_cmd call = [''/bin/surge'', ''site'', SURGE_DOMAIN, ''--yes'']
                 then Exited 1 ''direct-error''
               else if pc_cmd call = [''/bin/npx'', ''surge'', ''site'', SURGE_DOMAIN, ''--yes'']
                 then Exited 0 ''published''
               else Exited 1 [])\<rparr>"

definition node_world :: world where
  "node_world =
     \<lparr>which = (\<lambda>n. None), environ = (\<lambda>k. None), isdir = (\<lambda>d. True),
      isfile = (\<lambda>p. p = ''/opt/node/surge.cmd''), os_sep = CHR ''/'', win = False,
      run = (\<lambda>log call inp t. FileNotFoundError)\<rparr>"

section \<open>Rendering\<close>

text \<open>
  \<^verbatim>\<open>float(x)\<close> on a text: Python strips white space and accepts a sign followed by
  \<^verbatim>\<open>inf\<close>, \<^verbatim>\<open>infinity\<close> or \<^verbatim>\<open>nan\<close> in any case, or by a decimal number with an optional
  exponent; single underscores may stand between digits. Anything else raises
  \<^verbatim>\<open>ValueError\<close>.
\<close>

fun skip_digits :: "string \<Rightarrow> string" where
  "skip_digits [] = []"
| "skip_digits [c] = (if is_digit c then [] else [c])"
| "skip_digits (c # d # s) =
     (if is_digit c then skip_digits (d # s)
      else if c = CHR ''_'' \<and> is_digit d then skip_digits (d # s)
      else c # d # s)"

definition digitpart :: "string \<Rightarrow> string option" where
  "digitpart s = (case s of [] \<Rightarrow> None | c # r \<Rightarrow> if is_digit c then Some (skip_digits r) else None)"

definition opt_sign :: "string \<Rightarrow> string" where
  "opt_sign s = (case s of [] \<Rightarrow> [] | c # r \<Rightarrow> if c = CHR ''+'' \<or> c = CHR ''-'' then r else s)"

definition mantissa :: "string \<Rightarrow> string option" where
  "mantissa s =
     (case digitpart s of
        Some r \<Rightarrow>
          (case r of
             [] \<Rightarrow> Some []
           | c # r' \<Rightarrow>
               if c = CHR ''.'' then (case digitpart r' of Some r'' \<Rightarrow> Some r'' | None \<Rightarrow> Some r')
               else Some r)
      | None \<Rightarrow>
          (case s of
             [] \<Rightarrow> None
           | c # r \<Rightarrow> if c = CHR ''.'' then digitpart r else None))"

definition exponent_ok :: "string \<Rightarrow> bool" where
  "exponent_ok r \<longleftrightarrow>
     r = [] \<or>
     (case r of
        [] \<Rightarrow> False
      | c # r' \<Rightarrow> (c = CHR ''e'' \<or> c = CHR ''E'') \<and> digitpart (opt_sign r') = Some [])"

definition float_literal :: "string \<Rightarrow> bool" where
  "float_literal s \<longleftrightarrow>
     (let r = opt_sign (strip s) in
      lower r = ''inf'' \<or> lower r = ''infinity'' \<or> lower r = ''nan'' \<or>
      (case mantissa r of None \<Rightarrow> False | Some rest \<Rightarrow> exponent_ok rest))"

text \<open>
  The library functions on IEEE doubles that the embedding does not fix: the double a
  literal or an integer denotes, the format \<^verbatim>\<open>.2f\<close>, \<^verbatim>\<open>str\<close> of a double and of a byte
  string, \<^verbatim>\<open>json.dumps\<close>, and the fixed markup of the page around its variable parts.
\<close>

record page_parts =
  chart_tag :: string
  updated_at :: string
  operator_name :: string
  last_cells :: "string list"
  table_rows :: "string list list"
  labels_json :: string
  series_json :: "string list"
  generated_at :: string

record 'f pylib =
  float_value :: "string \<Rightarrow> 'f"
  float_of_int :: "int \<Rightarrow> 'f"
  fmt_2f :: "'f \<Rightarrow> string"
  str_float :: "'f \<Rightarrow> string"
  repr_bytes :: "string \<Rightarrow> string"
  dumps_floats :: "'f list \<Rightarrow> string"
  dumps_strings :: "string list \<Rightarrow> string"
  page :: "page_parts \<Rightarrow> string"

definition py_float :: "'f pylib \<Rightarrow> 'f sqlval \<Rightarrow> py_error + 'f" where
  "py_float L v =
     (case v of
        SqlNull \<Rightarrow> Inl TypeError
      | SqlInt i \<Rightarrow> Inr (float_of_int L i)
      | SqlReal x \<Rightarrow> Inr x
      | SqlText s \<Rightarrow> if float_literal s then Inr (float_value L s) else Inl ValueError
      | SqlBlob b \<Rightarrow> if float_literal b then Inr (float_value L b) else Inl ValueError)"

definition py_str :: "'f pylib \<Rightarrow> 'f sqlval \<Rightarrow> string" where
  "py_str L v =
     (case v of
        SqlNull \<Rightarrow> ''None''
      | SqlInt i \<Rightarrow> str_of_int i
      | SqlReal x \<Rightarrow> str_float L x
      | SqlText s \<Rightarrow> s
      | SqlBlob b \<Rightarrow> repr_bytes L b)"

text \<open>\<^verbatim>\<open>format_num\<close>: two decimals when \<^verbatim>\<open>float\<close> accepts the value, \<^verbatim>\<open>str\<close> of it otherwise.\<close>

definition format_num :: "'f pylib \<Rightarrow> 'f sqlval \<Rightarrow> string" where
  "format_num L x = (case py_float L x of Inr f \<Rightarrow> fmt_2f L f | Inl e \<Rightarrow> py_str L x)"

text \<open>
  One row of a table, as \<^verbatim>\<open>export_html\<close>, the main table and the dashboard write it: the
  nine cells, between fixed markup.
\<close>

definition row_cells :: "'f pylib \<Rightarrow> 'f reading \<Rightarrow> string list" where
  "row_cells L r =
     [it_ts_display (timestamp r), format_num L (o2 r), format_num L (rh1 r),
      format_num L (temp1 r), format_num L (rh2 r), format_num L (temp2 r),
      elio_ok r, aspirazione_ok r, operatore r]"

definition export_rows :: "'f pylib \<Rightarrow> 'f reading list \<Rightarrow> string list list" where
  "export_rows L records = map (row_cells L) records"

text \<open>
  The loop of \<^verbatim>\<open>generate_dashboard_html\<close> over the rows of the window: the label, the five
  values for the chart, each through \<^verbatim>\<open>float\<close>, and the row of the table. The first value
  that \<^verbatim>\<open>float\<close> refuses ends the loop with its exception.
\<close>

record 'f chart_data =
  labels :: "string list"
  o2_vals :: "'f list"
  rh1_vals :: "'f list"
  t1_vals :: "'f list"
  rh2_vals :: "'f list"
  t2_vals :: "'f list"
  rows_html :: "string list list"

fun dashboard_loop :: "'f pylib \<Rightarrow> 'f reading list \<Rightarrow> 'f chart_data \<Rightarrow> py_error + 'f chart_data" where
  "dashboard_loop L [] acc = Inr acc"
| "dashboard_loop L (r # rs) acc =
     (case py_float L (o2 r) of Inl e \<Rightarrow> Inl e | Inr a \<Rightarrow>
      case py_float L (rh1 r) of Inl e \<Rightarrow> Inl e | Inr b \<Rightarrow>
      case py_float L (temp1 r) of Inl e \<Rightarrow> Inl e | Inr c \<Rightarrow>
      case py_float L (rh2 r) of Inl e \<Rightarrow> Inl e | Inr d \<Rightarrow>
      case py_float L (temp2 r) of Inl e \<Rightarrow> Inl e | Inr f \<Rightarrow>
        dashboard_loop L rs
          (acc\<lparr>labels := labels acc @ [it_ts_display (timestamp r)],
               o2_vals := o2_vals acc @ [a], rh1_vals := rh1_vals acc @ [b],
               t1_vals := t1_vals acc @ [c], rh2_vals := rh2_vals acc @ [d],
               t2_vals := t2_vals acc @ [f],
               rows_html := rows_html acc @ [row_cells L r]\<rparr>))"

definition empty_chart :: "'f chart_data" where
  "empty_chart = \<lparr>labels = [], o2_vals = [], rh1_vals = [], t1_vals = [], rh2_vals = [],
                  t2_vals = [], rows_html = []\<rparr>"

definition local_tag :: string where
  "local_tag = ''<script src=\"chart.umd.min.js\"></script>''"

definition cdn_tag :: string where
  "cdn_tag = ''<script src=\"https://cdn.jsdelivr.net/npm/chart.js\"></script>''"

definition render_page ::
  "'f pylib \<Rightarrow> datetime \<Rightarrow> string \<Rightarrow> 'f reading \<Rightarrow> 'f chart_data \<Rightarrow> string" where
  "render_page L now tag l cd =
     page L
       \<lparr>chart_tag = tag,
        updated_at = it_ts_display (timestamp l),
        operator_name = operatore l,
        last_cells = [it_ts_display (timestamp l), format_num L (o2 l), format_num L (rh1 l),
                      format_num L (temp1 l), format_num L (rh2 l), format_num L (temp2 l),
                      (if elio_ok l = ''SI'' then ''ok'' else ''no''), elio_ok l,
                      (if aspirazione_ok l = ''SI'' then ''ok'' else ''no''), aspirazione_ok l],
        table_rows = rows_html cd,
        labels_json = dumps_strings L (labels cd),
        series_json = [dumps_floats L (o2_vals cd), dumps_floats L (rh1_vals cd),
                       dumps_floats L (t1_vals cd), dumps_floats L (rh2_vals cd),
                       dumps_floats L (t2_vals cd)],
        generated_at = strftime now ''%d/%m/%y %H:%M''\<rparr>"

section \<open>The publish directory\<close>

text \<open>
  The disk is the set of directories and the bytes of each file. \<open>io\<close> is what the
  machine decides: the separator, whether the platform is Windows (\<^verbatim>\<open>os.name == "nt"\<close>),
  the install directory \<^verbatim>\<open>APP_DIR\<close>, which paths can be created or written, and whether
  \<^verbatim>\<open>shutil.copy2\<close> works (when it fails it may leave a file with some content at the
  destination).
\<close>

record disk =
  d_dirs :: "string set"
  d_files :: "string \<Rightarrow> string option"

datatype copy_outcome = Copied | CopyFailed "string option"

record io =
  io_sep :: char
  io_nt :: bool
  app_dir :: string
  writable :: "string \<Rightarrow> bool"
  copy2_outcome :: "string \<Rightarrow> string \<Rightarrow> copy_outcome"

definition path_exists :: "disk \<Rightarrow> string \<Rightarrow> bool" where
  "path_exists d p \<longleftrightarrow> p \<in> d_dirs d \<or> d_files d p \<noteq> None"

definition makedirs :: "io \<Rightarrow> string \<Rightarrow> disk \<Rightarrow> py_error + disk" where
  "makedirs m p d =
     (if p \<in> d_dirs d then Inr d
      else if d_files d p = None \<and> writable m p then Inr (d\<lparr>d_dirs := insert p (d_dirs d)\<rparr>)
      else Inl OSError)"

text \<open>
  Text files. A text is held as its UTF-8 bytes, so that encoding and decoding leave it as
  it is; what the text layer of Python changes are the bytes 10 and 13, which UTF-8 uses
  for the line feed and the carriage return only. A file opened with \<^verbatim>\<open>open(p, "w")\<close> turns
  every line feed written into \<^verbatim>\<open>os.linesep\<close>; a file opened with \<^verbatim>\<open>open(p, "r")\<close> gives a
  line feed for every CR LF and for every other carriage return.
\<close>

definition linesep :: "io \<Rightarrow> string" where
  "linesep m = (if io_nt m then [CHR 0x0D, CHR 0x0A] else [CHR 0x0A])"

definition translate_newlines :: "string \<Rightarrow> string \<Rightarrow> string" where
  "translate_newlines writenl s = concat (map (\<lambda>c. if c = CHR 0x0A then writenl else [c]) s)"

fun universal_newlines :: "string \<Rightarrow> string" where
  "universal_newlines [] = []"
| "universal_newlines [c] = (if c = CHR 0x0D then [CHR 0x0A] else [c])"
| "universal_newlines (c # d # s) =
     (if c = CHR 0x0D \<and> d = CHR 0x0A then CHR 0x0A # universal_newlines s
      else if c = CHR 0x0D then CHR 0x0A # universal_newlines (d # s)
      else c # universal_newlines (d # s))"

text \<open>
  \<^verbatim>\<open>os.path.dirname\<close>: what stands before the last separator, without the separators that
  end it unless it consists of separators only. Paths are split at the separator of the
  machine, as they are written with it. A file can be opened for writing when the machine
  allows it, the path is not a directory, and the directory it lies in exists; the root
  and the current directory always do.
\<close>

definition dirname :: "char \<Rightarrow> string \<Rightarrow> string" where
  "dirname sep p =
     (let head = dropWhile (\<lambda>c. c \<noteq> sep) (rev p)
      in if list_ex (\<lambda>c. c \<noteq> sep) head then rev (dropWhile (\<lambda>c. c = sep) head) else rev head)"

definition can_open_w :: "io \<Rightarrow> disk \<Rightarrow> string \<Rightarrow> bool" where
  "can_open_w m d p \<longleftrightarrow>
     writable m p \<and> p \<notin> d_dirs d \<and>
     (let parent = dirname (io_sep m) p
      in parent \<in> d_dirs d \<or> list_all (\<lambda>c. c = io_sep m) parent)"

text \<open>
  \<^verbatim>\<open>open(p, "w", encoding="utf-8")\<close> creates the file or empties it, and \<^verbatim>\<open>f.write(content)\<close>
  on the file just opened leaves the translated text in it. \<open>write_text\<close> is
  \<^verbatim>\<open>with open(p, "w", encoding="utf-8") as f: f.write(content)\<close>, and \<open>read_text\<close> is
  \<^verbatim>\<open>open(p, "r", encoding="utf-8").read()\<close>.
\<close>

definition open_w :: "io \<Rightarrow> string \<Rightarrow> disk \<Rightarrow> py_error + disk" where
  "open_w m p d =
     (if can_open_w m d p then Inr (d\<lparr>d_files := (d_files d)(p \<mapsto> [])\<rparr>)
      else Inl OSError)"

definition put_text :: "io \<Rightarrow> string \<Rightarrow> string \<Rightarrow> disk \<Rightarrow> disk" where
  "put_text m p content d =
     d\<lparr>d_files := (d_files d)(p \<mapsto> translate_newlines (linesep m) content)\<rparr>"

definition write_text :: "io \<Rightarrow> string \<Rightarrow> string \<Rightarrow> disk \<Rightarrow> py_error + disk" where
  "write_text m p content d =
     (case open_w m p d of Inl e \<Rightarrow> Inl e | Inr d' \<Rightarrow> Inr (put_text m p content d'))"

definition read_text :: "disk \<Rightarrow> string \<Rightarrow> py_error + string" where
  "read_text d p = (case d_files d p of None \<Rightarrow> Inl OSError | Some bytes \<Rightarrow> Inr (universal_newlines bytes))"

text \<open>
  \<^verbatim>\<open>shutil.copy2(src, dst)\<close> copies the bytes of \<open>src\<close>. When \<open>dst\<close> is a directory the
  file is copied into it under the base name of \<open>src\<close>, and \<^verbatim>\<open>os.path.basename\<close> is what
  follows the last separator. Copying a file onto itself raises, as does a source that
  cannot be read or a target that cannot be opened, and nothing is written then; a copy
  that the machine lets fail later may leave some bytes in the target.
\<close>

definition basename :: "char \<Rightarrow> string \<Rightarrow> string" where
  "basename sep p = rev (takeWhile (\<lambda>c. c \<noteq> sep) (rev p))"

definition copy_target :: "io \<Rightarrow> string \<Rightarrow> string \<Rightarrow> disk \<Rightarrow> string" where
  "copy_target m src dst d =
     (if dst \<in> d_dirs d then path_join (io_sep m) dst (basename (io_sep m) src) else dst)"

definition copy2 :: "io \<Rightarrow> string \<Rightarrow> string \<Rightarrow> disk \<Rightarrow> bool \<times> disk" where
  "copy2 m src dst d =
     (let target = copy_target m src dst d in
      case d_files d src of
        None \<Rightarrow> (False, d)
      | Some bytes \<Rightarrow>
          if target \<noteq> src \<and> can_open_w m d target then
            (case copy2_outcome m src dst of
               Copied \<Rightarrow> (True, d\<lparr>d_files := (d_files d)(target \<mapsto> bytes)\<rparr>)
             | CopyFailed left \<Rightarrow>
                 (False,
                  case left of None \<Rightarrow> d | Some s \<Rightarrow> d\<lparr>d_files := (d_files d)(target \<mapsto> s)\<rparr>))
          else (False, d))"

text \<open>
  The last lines of \<^verbatim>\<open>generate_dashboard_html\<close>: the page is written under the stable
  name and under the name with the time of writing.
\<close>

definition path_latest :: "io \<Rightarrow> string \<Rightarrow> string" where
  "path_latest m out_dir = path_join (io_sep m) out_dir ''dashboard_latest.html''"

definition path_ts :: "io \<Rightarrow> string \<Rightarrow> datetime \<Rightarrow> string" where
  "path_ts m out_dir now =
     path_join (io_sep m) out_dir (''dashboard_'' @ strftime now ''%Y%m%d_%H%M%S'' @ ''.html'')"

definition path_index :: "io \<Rightarrow> string \<Rightarrow> string" where
  "path_index m out_dir = path_join (io_sep m) out_dir ''index.html''"

definition write_dashboard ::
  "io \<Rightarrow> string \<Rightarrow> datetime \<Rightarrow> string \<Rightarrow> disk \<Rightarrow> (py_error + string \<times> string) \<times> disk" where
  "write_dashboard m out_dir now html d =
     (case write_text m (path_latest m out_dir) html d of
        Inl e \<Rightarrow> (Inl e, d)
      | Inr d1 \<Rightarrow>
          (case write_text m (path_ts m out_dir now) html d1 of
             Inl e \<Rightarrow> (Inl e, d1)
           | Inr d2 \<Rightarrow> (Inr (path_latest m out_dir, path_ts m out_dir now), d2)))"

text \<open>The choice of the script tag, which may copy the chart library into the directory.\<close>

definition choose_chart_tag :: "io \<Rightarrow> string \<Rightarrow> bool \<Rightarrow> disk \<Rightarrow> string \<times> disk" where
  "choose_chart_tag m out_dir use_offline d =
     (let local_chart_in_outdir = path_join (io_sep m) out_dir ''chart.umd.min.js'';
          local_chart_in_app = path_join (io_sep m) (app_dir m) ''chart.umd.min.js''
      in if use_offline \<and> path_exists d local_chart_in_outdir then (local_tag, d)
         else if use_offline \<and> path_exists d local_chart_in_app then
           (case copy2 m local_chart_in_app local_chart_in_outdir d of
              (True, d') \<Rightarrow> (local_tag, d')
            | (False, d') \<Rightarrow> (cdn_tag, d'))
         else (cdn_tag, d))"

text \<open>
  \<^verbatim>\<open>generate_dashboard_html(out_dir, use_offline)\<close>: \<open>now_page\<close> and \<open>now_file\<close> are the two
  readings of the clock, for the footer and for the file name.
\<close>

definition generate_dashboard_html ::
  "'f pylib \<Rightarrow> io \<Rightarrow> datetime \<Rightarrow> datetime \<Rightarrow> string \<Rightarrow> bool \<Rightarrow> 'f store \<Rightarrow> disk
     \<Rightarrow> (py_error + string \<times> string) \<times> disk" where
  "generate_dashboard_html L m now_page now_file out_dir use_offline db d =
     (if out_dir = [] then (Inl (RuntimeError ''Cartella dashboard non impostata.''), d)
      else
        (case (if path_exists d out_dir then Inr d else makedirs m out_dir d) of
           Inl e \<Rightarrow> (Inl e, d)
         | Inr d0 \<Rightarrow>
             (case aggregate db of
                Inl e \<Rightarrow> (Inl e, d0)
              | Inr snap \<Rightarrow>
                  (case dashboard_loop L (readings snap) empty_chart of
                     Inl e \<Rightarrow> (Inl e, d0)
                   | Inr cd \<Rightarrow>
                       (case choose_chart_tag m out_dir use_offline d0 of
                          (tag, d1) \<Rightarrow>
                            write_dashboard m out_dir now_file
                              (render_page L now_page tag (latest snap) cd) d1)))))"

text \<open>
  \<^verbatim>\<open>App._generate_dashboard_to_fixed_dir\<close>: the directory is made, the dashboard is
  generated, and the stable file is copied to \<^verbatim>\<open>index.html\<close>. When the copy raises, the
  entry point is opened for writing, which empties it, then the stable file is opened for
  reading, and the text read from it is written to the entry point.
\<close>

definition DASH_DIR :: "io \<Rightarrow> string" where
  "DASH_DIR m = path_join (io_sep m) (app_dir m) ''dashboardmri''"

definition mirror_index :: "io \<Rightarrow> string \<Rightarrow> string \<Rightarrow> disk \<Rightarrow> (py_error + unit) \<times> disk" where
  "mirror_index m out_dir latest_path d =
     (case copy2 m latest_path (path_index m out_dir) d of
        (True, d') \<Rightarrow> (Inr (), d')
      | (False, d') \<Rightarrow>
          (case open_w m (path_index m out_dir) d' of
             Inl e \<Rightarrow> (Inl e, d')
           | Inr d'' \<Rightarrow>
               (case read_text d'' latest_path of
                  Inl e \<Rightarrow> (Inl e, d'')
                | Inr txt \<Rightarrow> (Inr (), put_text m (path_index m out_dir) txt d''))))"

definition generate_dashboard_to_fixed_dir ::
  "'f pylib \<Rightarrow> io \<Rightarrow> datetime \<Rightarrow> datetime \<Rightarrow> bool \<Rightarrow> 'f store \<Rightarrow> disk
     \<Rightarrow> (py_error + string \<times> string) \<times> disk" where
  "generate_dashboard_to_fixed_dir L m now_page now_file use_offline db d =
     (case makedirs m (DASH_DIR m) d of
        Inl e \<Rightarrow> (Inl e, d)
      | Inr d0 \<Rightarrow>
          (case generate_dashboard_html L m now_page now_file (DASH_DIR m) use_offline db d0 of
             (Inl e, d1) \<Rightarrow> (Inl e, d1)
           | (Inr (latest_path, tsfile), d1) \<Rightarrow>
               (case mirror_index m (DASH_DIR m) latest_path d1 of
                  (Inl e, d2) \<Rightarrow> (Inl e, d2)
                | (Inr u, d2) \<Rightarrow> (Inr (latest_path, tsfile), d2))))"

text \<open>
  Commit in the words of the specification: the writes of a given document, that is the
  end of \<^verbatim>\<open>generate_dashboard_html\<close> followed by the mirroring of the entry point.
\<close>

definition commit ::
  "io \<Rightarrow> string \<Rightarrow> datetime \<Rightarrow> string \<Rightarrow> disk \<Rightarrow> (py_error + string \<times> string) \<times> disk" where
  "commit m out_dir now html d =
     (case write_dashboard m out_dir now html d of
        (Inl e, d1) \<Rightarrow> (Inl e, d1)
      | (Inr (latest_path, tsfile), d1) \<Rightarrow>
          (case mirror_index m out_dir latest_path d1 of
             (Inl e, d2) \<Rightarrow> (Inl e, d2)
           | (Inr u, d2) \<Rightarrow> (Inr (latest_path, tsfile), d2)))"

text \<open>
  The end of \<^verbatim>\<open>App.save_record\<close>, after the row is inserted: the dashboard is generated,
  and only then the worker is started that deploys the directory. An exception of the
  generation is caught by \<^verbatim>\<open>save_record\<close> and nothing is deployed.
\<close>

definition publish ::
  "'f pylib \<Rightarrow> io \<Rightarrow> world \<Rightarrow> datetime \<Rightarrow> datetime \<Rightarrow> bool \<Rightarrow> 'f store \<Rightarrow> disk \<Rightarrow> event list
     \<Rightarrow> (py_error + bool \<times> string) \<times> disk \<times> event list" where
  "publish L m w now_page now_file use_offline db d log =
     (case generate_dashboard_to_fixed_dir L m now_page now_file use_offline db d of
        (Inl e, d1) \<Rightarrow> (Inl e, d1, log)
      | (Inr paths, d1) \<Rightarrow>
          (case deploy_to_surge w (DASH_DIR m) log of
             (result, log1) \<Rightarrow> (Inr result, d1, log1)))"

text \<open>A library and a machine for the examples.\<close>

definition plain_lib :: "unit pylib" where
  "plain_lib =
     \<lparr>float_value = (\<lambda>s. ()), float_of_int = (\<lambda>i. ()), fmt_2f = (\<lambda>x. ''0.00''),
      str_float = (\<lambda>x. ''0.0''), repr_bytes = (\<lambda>b. b), dumps_floats = (\<lambda>xs. ''[]''),
      dumps_strings = (\<lambda>xs. ''[]''), page = (\<lambda>p. concat (last_cells p))\<rparr>"

definition plain_io :: io where
  "plain_io =
     \<lparr>io_sep = CHR ''/'', io_nt = False, app_dir = ''/app'', writable = (\<lambda>p. True),
      copy2_outcome = (\<lambda>src dst. CopyFailed None)\<rparr>"

definition empty_disk :: disk where
  "empty_disk = \<lparr>d_dirs = {}, d_files = (\<lambda>p. None)\<rparr>"

text \<open>
  The same machine with a \<^verbatim>\<open>shutil.copy2\<close> that works, the disk once the dashboard directory
  is made, and that disk with a directory where the entry point should be.
\<close>

definition copy_io :: io where
  "copy_io = plain_io\<lparr>copy2_outcome := (\<lambda>src dst. Copied)\<rparr>"

definition dash_disk :: disk where
  "dash_disk = \<lparr>d_dirs = {''/app'', ''/app/dashboardmri''}, d_files = (\<lambda>p. None)\<rparr>"

definition blocked_disk :: disk where
  "blocked_disk =
     \<lparr>d_dirs = {''/app'', ''/app/dashboardmri'', ''/app/dashboardmri/index.html''},
      d_files = (\<lambda>p. None)\<rparr>"

text \<open>A document with a carriage return in it, and what is read back from its bytes.\<close>

definition cr_document :: string where
  "cr_document = ''<p>a'' @ [CHR 0x0D] @ ''b</p>''"

definition lf_document :: string where
  "lf_document = ''<p>a'' @ [CHR 0x0A] @ ''b</p>''"

text \<open>
  The reading of the scenario with the text \<^verbatim>\<open>n/a\<close> in the oxygen column.
\<close>

definition text_reading :: "unit reading" where
  "text_reading = (reading_at ''2024-01-10 08:00:00'')\<lparr>o2 := SqlText ''n/a''\<rparr>"

section \<open>Facts about digits and padded numbers\<close>

lemma of_char_digit_char: "n < 10 \<Longrightarrow> (of_char (digit_char n) :: nat) = 48 + n"
  by (simp add: digit_char_def)

lemma is_digit_iff: "is_digit c \<longleftrightarrow> 48 \<le> (of_char c :: nat) \<and> (of_char c :: nat) \<le> 57"
  by (simp add: is_digit_def less_eq_char_def)

lemma is_digit_digit_char [simp]: "n < 10 \<Longrightarrow> is_digit (digit_char n)"
  by (simp add: is_digit_iff of_char_digit_char)

lemma digit_val_digit_char [simp]: "n < 10 \<Longrightarrow> digit_val (digit_char n) = n"
  by (simp add: digit_val_def of_char_digit_char)

lemma digit_char_less [simp]: "m < 10 \<Longrightarrow> n < 10 \<Longrightarrow> digit_char m < digit_char n \<longleftrightarrow> m < n"
  by (simp add: less_char_def of_char_digit_char)

lemma digit_char_eq [simp]: "m < 10 \<Longrightarrow> n < 10 \<Longrightarrow> digit_char m = digit_char n \<longleftrightarrow> m = n"
  by (metis digit_val_digit_char)

lemma not_digit_seps [simp]:
  "\<not> is_digit (CHR ''-'')" "\<not> is_digit (CHR '' '')" "\<not> is_digit (CHR '':'')"
  by (simp_all add: is_digit_iff)

lemma not_space_digit: "is_digit c \<Longrightarrow> \<not> is_space c"
  by (auto simp: is_digit_iff is_space_def Let_def)

lemma digit_char_not_space [simp]: "n < 10 \<Longrightarrow> digit_char n \<noteq> CHR '' ''"
  using not_digit_seps(2) is_digit_digit_char by metis

lemma is_space_sp [simp]: "is_space (CHR '' '')" "\<not> is_space (CHR ''-'')" "\<not> is_space (CHR '':'')"
  by (simp_all add: is_space_def)

lemma tokens_iso: "tokens iso_format =
  [Dir (CHR ''Y''), Lit (CHR ''-''), Dir (CHR ''m''), Lit (CHR ''-''), Dir (CHR ''d''), Space,
   Dir (CHR ''H''), Lit (CHR '':''), Dir (CHR ''M''), Lit (CHR '':''), Dir (CHR ''S'')]"
  by (simp add: iso_format_def is_space_def)

lemma strftime_iso: "strftime dt iso_format =
  pad4 (dt_year dt) @ CHR ''-'' # pad2 (dt_month dt) @ CHR ''-'' # pad2 (dt_day dt) @ CHR '' '' #
  pad2 (dt_hour dt) @ CHR '':'' # pad2 (dt_minute dt) @ CHR '':'' # pad2 (dt_second dt)"
  by (simp add: iso_format_def directive_def)

lemma pad2_digits: "takeWhile is_digit (pad2 n) = pad2 n" "dropWhile is_digit (pad2 n) = []"
  by (simp_all add: pad2_def)

lemma pad2_digits_sep:
  "\<not> is_digit c \<Longrightarrow> takeWhile is_digit (pad2 n @ c # s) = pad2 n"
  "\<not> is_digit c \<Longrightarrow> dropWhile is_digit (pad2 n @ c # s) = c # s"
  by (simp_all add: pad2_def)

lemma pad4_digits_sep:
  "\<not> is_digit c \<Longrightarrow> takeWhile is_digit (pad4 n @ c # s) = pad4 n"
  "\<not> is_digit c \<Longrightarrow> dropWhile is_digit (pad4 n @ c # s) = c # s"
  by (simp_all add: pad4_def)

lemma nat_of_digits_pad2: "n < 100 \<Longrightarrow> nat_of_digits (pad2 n) = n"
  by (simp add: nat_of_digits_def pad2_def)

lemma length_pad [simp]: "length (pad2 n) = 2" "length (pad4 n) = 4"
  by (simp_all add: pad2_def pad4_def)

lemma length_strftime_iso: "length (strftime dt iso_format) = 19"
  by (simp add: strftime_iso)

lemma not_space_day_pad2: "\<not> space_day c (pad2 n @ s)"
  by (simp add: space_day_def pad2_def)

lemma not_space_day_pad4: "\<not> space_day c (pad4 n @ s)"
  by (simp add: space_day_def pad4_def)

lemma dropWhile_space_pad2: "dropWhile is_space (pad2 n @ s) = pad2 n @ s"
  by (simp add: pad2_def not_space_digit)

lemma valid_bounds:
  assumes "valid_datetime dt"
  shows "dt_year dt < 10000" "dt_month dt < 100" "dt_day dt < 100" "dt_hour dt < 100"
    "dt_minute dt < 100" "dt_second dt < 100" "1 \<le> dt_day dt" "dt_day dt \<le> 31"
  using assms by (auto simp: valid_datetime_def days_in_month_def split: if_splits)

lemma decimal_split4:
  fixes n :: nat
  shows "1000 * (n div 1000) + 100 * (n div 100 mod 10) + 10 * (n div 10 mod 10) + n mod 10 = n"
proof -
  have h: "n div 100 = n div 10 div 10" "n div 1000 = n div 10 div 10 div 10"
    by (simp_all add: div_mult2_eq[symmetric])
  have a: "n = 10 * (n div 10) + n mod 10" by simp
  have b: "n div 10 = 10 * (n div 10 div 10) + n div 10 mod 10" by simp
  have c: "n div 10 div 10 = 10 * (n div 10 div 10 div 10) + n div 10 div 10 mod 10" by simp
  show ?thesis unfolding h using a b c by linarith
qed

lemma nat_of_digits_pad4: "n < 10000 \<Longrightarrow> nat_of_digits (pad4 n) = n"
  unfolding nat_of_digits_def pad4_def using decimal_split4[of n] by simp

lemma not_space_day_pad2_end: "\<not> space_day c (pad2 n)"
  by (simp add: space_day_def pad2_def)

lemma strptime_strftime:
  assumes "valid_datetime dt"
  shows "strptime (strftime dt iso_format) iso_format = Inr dt"
proof -
  note b = valid_bounds[OF assms]
  have v: "1 \<le> dt_month dt" "dt_month dt \<le> 12" "dt_hour dt < 24" "dt_minute dt < 60" "dt_second dt < 60"
    using assms by (auto simp: valid_datetime_def)
  have "match_format (tokens iso_format) (strftime dt iso_format)
          \<lparr>dt_year = 1900, dt_month = 1, dt_day = 1, dt_hour = 0, dt_minute = 0, dt_second = 0\<rparr>
        = Some dt"
    unfolding tokens_iso strftime_iso
    using b v
    by (simp add: pad2_digits pad2_digits_sep pad4_digits_sep nat_of_digits_pad2 nat_of_digits_pad4
        not_space_day_pad2 not_space_day_pad2_end not_space_day_pad4 dropWhile_space_pad2 group_ok_def set_field_def Let_def)
  then show ?thesis using assms by (simp add: strptime_def)
qed

section \<open>The order of canonical stamps\<close>

lemma lex_append_less:
  fixes a b :: "'a::linorder list"
  shows "length a = length b \<Longrightarrow> (a @ x < b @ y) \<longleftrightarrow> (a < b \<or> a = b \<and> x < y)"
  by (induction a b rule: list_induct2) auto

lemma divmod_lex:
  fixes m n k :: nat
  shows "(m div k < n div k \<or> m div k = n div k \<and> m mod k < n mod k) \<longleftrightarrow> m < n"
proof -
  have em: "m = k * (m div k) + m mod k" and en: "n = k * (n div k) + n mod k" by simp_all
  have a: "m div k < n div k \<Longrightarrow> m < n"
    using div_le_mono[of n m k] by (cases "n \<le> m") simp_all
  have b: "m div k = n div k \<Longrightarrow> m mod k < n mod k \<longleftrightarrow> m < n"
  proof -
    assume h: "m div k = n div k"
    define q where "q = k * (n div k)"
    have "m = q + m mod k" "n = q + n mod k" using em en h unfolding q_def by simp_all
    then show ?thesis by linarith
  qed
  have c: "m < n \<Longrightarrow> m div k \<le> n div k" by (simp add: div_le_mono)
  show ?thesis using a b c by (cases "m div k = n div k") auto
qed

lemma pad2_less: "m < 100 \<Longrightarrow> n < 100 \<Longrightarrow> pad2 m < pad2 n \<longleftrightarrow> m < n"
  using divmod_lex[of m 10 n] by (simp add: pad2_def)

lemma pad2_inj:
  assumes "m < 100" "n < 100"
  shows "pad2 m = pad2 n \<longleftrightarrow> m = n"
proof
  assume "pad2 m = pad2 n"
  then have "nat_of_digits (pad2 m) = nat_of_digits (pad2 n)" by (rule arg_cong)
  then show "m = n" by (simp only: nat_of_digits_pad2[OF assms(1)] nat_of_digits_pad2[OF assms(2)])
next
  assume "m = n" then show "pad2 m = pad2 n" by (rule arg_cong)
qed

lemma pad4_inj:
  assumes "m < 10000" "n < 10000"
  shows "pad4 m = pad4 n \<longleftrightarrow> m = n"
proof
  assume "pad4 m = pad4 n"
  then have "nat_of_digits (pad4 m) = nat_of_digits (pad4 n)" by (rule arg_cong)
  then show "m = n" by (simp only: nat_of_digits_pad4[OF assms(1)] nat_of_digits_pad4[OF assms(2)])
next
  assume "m = n" then show "pad4 m = pad4 n" by (rule arg_cong)
qed

lemma pad4_split: "pad4 n = pad2 (n div 100) @ pad2 (n mod 100)"
proof -
  have a: "n div 100 div 10 = n div 1000"
    using div_mult2_eq[of n 100 10] by simp
  have b: "n mod 100 mod 10 = n mod 10"
    by (rule mod_mod_cancel) simp
  have "n mod (10 * 10) = 10 * (n div 10 mod 10) + n mod 10" by (rule mod_mult2_eq)
  then have e: "n mod 100 = 10 * (n div 10 mod 10) + n mod 10" by simp
  have "(10 * (n div 10 mod 10) + n mod 10) div 10 = n div 10 mod 10" by simp
  then have c: "n mod 100 div 10 = n div 10 mod 10" using e by simp
  have d: "n div 10 mod 10 mod 10 = n div 10 mod 10" by (rule mod_mod_trivial)
  show ?thesis unfolding pad4_def pad2_def a b c d by simp
qed

lemma pad4_less: "m < 10000 \<Longrightarrow> n < 10000 \<Longrightarrow> pad4 m < pad4 n \<longleftrightarrow> m < n"
proof -
  assume h: "m < 10000" "n < 10000"
  then have b: "m div 100 < 100" "n div 100 < 100" "m mod 100 < 100" "n mod 100 < 100" by simp_all
  have "pad4 m < pad4 n \<longleftrightarrow>
        (pad2 (m div 100) < pad2 (n div 100)
         \<or> pad2 (m div 100) = pad2 (n div 100) \<and> pad2 (m mod 100) < pad2 (n mod 100))"
    unfolding pad4_split by (rule lex_append_less) simp
  also have "\<dots> \<longleftrightarrow> (m div 100 < n div 100 \<or> m div 100 = n div 100 \<and> m mod 100 < n mod 100)"
    using b by (simp only: pad2_less pad2_inj)
  also have "\<dots> \<longleftrightarrow> m < n" by (rule divmod_lex)
  finally show ?thesis .
qed

lemma lex_field:
  fixes p q :: string
  assumes "length p = length q"
  shows "(p @ c # x < q @ c # y) \<longleftrightarrow> (p < q \<or> p = q \<and> x < y)"
  using lex_append_less[OF assms, of "c # x" "c # y"] by simp

lemma strftime_less_iff:
  assumes va: "valid_datetime a" and vb: "valid_datetime b"
  shows "strftime a iso_format < strftime b iso_format \<longleftrightarrow> dt_less a b"
proof -
  note ba = valid_bounds[OF va] and bb = valid_bounds[OF vb]
  have "strftime a iso_format < strftime b iso_format \<longleftrightarrow>
    (pad4 (dt_year a) < pad4 (dt_year b) \<or> pad4 (dt_year a) = pad4 (dt_year b) \<and>
     (pad2 (dt_month a) < pad2 (dt_month b) \<or> pad2 (dt_month a) = pad2 (dt_month b) \<and>
      (pad2 (dt_day a) < pad2 (dt_day b) \<or> pad2 (dt_day a) = pad2 (dt_day b) \<and>
       (pad2 (dt_hour a) < pad2 (dt_hour b) \<or> pad2 (dt_hour a) = pad2 (dt_hour b) \<and>
        (pad2 (dt_minute a) < pad2 (dt_minute b) \<or> pad2 (dt_minute a) = pad2 (dt_minute b) \<and>
         pad2 (dt_second a) < pad2 (dt_second b))))))"
    unfolding strftime_iso by (simp only: lex_field length_pad)
  also have "\<dots> \<longleftrightarrow>
    (dt_year a < dt_year b \<or> dt_year a = dt_year b \<and>
     (dt_month a < dt_month b \<or> dt_month a = dt_month b \<and>
      (dt_day a < dt_day b \<or> dt_day a = dt_day b \<and>
       (dt_hour a < dt_hour b \<or> dt_hour a = dt_hour b \<and>
        (dt_minute a < dt_minute b \<or> dt_minute a = dt_minute b \<and>
         dt_second a < dt_second b)))))"
    by (simp only: pad4_less[OF ba(1) bb(1)] pad4_inj[OF ba(1) bb(1)]
        pad2_less[OF ba(2) bb(2)] pad2_inj[OF ba(2) bb(2)]
        pad2_less[OF ba(3) bb(3)] pad2_inj[OF ba(3) bb(3)]
        pad2_less[OF ba(4) bb(4)] pad2_inj[OF ba(4) bb(4)]
        pad2_less[OF ba(5) bb(5)] pad2_inj[OF ba(5) bb(5)]
        pad2_less[OF ba(6) bb(6)])
  also have "\<dots> \<longleftrightarrow> dt_less a b"
    unfolding dt_less_def date_less_def same_date_def time_less_def by blast
  finally show ?thesis .
qed

section \<open>Facts about the calendar\<close>

lemma leap_arith:
  fixes A B C p :: nat
  assumes "B \<le> A" "q100 \<longrightarrow> q4" "q400 \<longrightarrow> q100"
  shows "Suc p * 365 + (if q4 then Suc A else A) - (if q100 then Suc B else B)
           + (if q400 then Suc C else C)
         = p * 365 + A - B + C + (if q4 \<and> (\<not> q100 \<or> q400) then 366 else 365)"
  using assms by (cases q4; cases q100; cases q400) simp_all

lemma mod_100_4: "(n::nat) mod 100 = 0 \<Longrightarrow> n mod 4 = 0"
proof -
  assume "n mod 100 = 0"
  then have "100 dvd n" by (rule mod_0_imp_dvd)
  moreover have "(4::nat) dvd 100" by simp
  ultimately have "4 dvd n" using dvd_trans by blast
  then show ?thesis by (rule dvd_imp_mod_0)
qed
lemma mod_400_100: "(n::nat) mod 400 = 0 \<Longrightarrow> n mod 100 = 0"
proof -
  assume "n mod 400 = 0"
  then have "400 dvd n" by (rule mod_0_imp_dvd)
  moreover have "(100::nat) dvd 400" by simp
  ultimately have "100 dvd n" using dvd_trans by blast
  then show ?thesis by (rule dvd_imp_mod_0)
qed

lemma div_100_4: "(p::nat) div 100 \<le> p div 4"
  by (rule div_le_mono2) simp_all

lemma month_cases:
  assumes "1 \<le> m" "m \<le> 12"
  shows "m = 1 \<or> m = 2 \<or> m = 3 \<or> m = 4 \<or> m = 5 \<or> m = 6 \<or> m = 7 \<or> m = 8 \<or> m = 9 \<or> m = 10
         \<or> m = 11 \<or> m = (12::nat)"
  using assms by arith

lemma days_before_month_Suc:
  assumes "1 \<le> m" "m < 12"
  shows "days_before_month y (Suc m) = days_before_month y m + days_in_month y m"
proof -
  have "m = 1 \<or> m = 2 \<or> m = 3 \<or> m = 4 \<or> m = 5 \<or> m = 6 \<or> m = 7 \<or> m = 8 \<or> m = 9 \<or> m = 10 \<or> m = 11"
    using assms by arith
  then show ?thesis
    by (elim disjE) (simp_all add: days_before_month_def days_in_month_def eval_nat_numeral)
qed

lemma days_before_month_12:
  "days_before_month y 12 + 31 = (if is_leap y then 366 else 365)"
  by (simp add: days_before_month_def eval_nat_numeral)

lemma days_before_month_1: "days_before_month y 1 = 0" "days_before_month y (Suc 0) = 0"
  by (simp_all add: days_before_month_def)

lemma days_before_year_Suc:
  assumes "1 \<le> y"
  shows "days_before_year (Suc y) = days_before_year y + (if is_leap y then 366 else 365)"
proof -
  obtain p where y: "y = Suc p" using assms by (cases y) auto
  have d4: "Suc p div 4 = (if Suc p mod 4 = 0 then Suc (p div 4) else p div 4)" by (rule div_Suc)
  have d100: "Suc p div 100 = (if Suc p mod 100 = 0 then Suc (p div 100) else p div 100)"
    by (rule div_Suc)
  have d400: "Suc p div 400 = (if Suc p mod 400 = 0 then Suc (p div 400) else p div 400)"
    by (rule div_Suc)
  have "Suc p * 365 + Suc p div 4 - Suc p div 100 + Suc p div 400 =
        p * 365 + p div 4 - p div 100 + p div 400 + (if is_leap (Suc p) then 366 else 365)"
    unfolding is_leap_def d4 d100 d400
    by (rule leap_arith) (rule div_100_4, (rule impI, erule mod_100_4), (rule impI, erule mod_400_100))
  then show ?thesis unfolding y days_before_year_def Let_def by (simp only: diff_Suc_1)
qed

lemma days_in_month_pos: "28 \<le> days_in_month y m"
  by (simp add: days_in_month_def)

lemma days_before_year_1: "days_before_year 1 = 0" "days_before_year (Suc 0) = 0"
  by (simp_all add: days_before_year_def)

lemma prev_day_ok:
  assumes v: "valid_datetime dt" and o: "1 < toordinal dt"
  shows "valid_datetime (prev_day dt) \<and> toordinal (prev_day dt) = toordinal dt - 1
         \<and> dt_hour (prev_day dt) = dt_hour dt \<and> dt_minute (prev_day dt) = dt_minute dt
         \<and> dt_second (prev_day dt) = dt_second dt"
proof -
  have b: "1 \<le> dt_year dt" "dt_year dt \<le> 9999" "1 \<le> dt_month dt" "dt_month dt \<le> 12"
    "1 \<le> dt_day dt" "dt_day dt \<le> days_in_month (dt_year dt) (dt_month dt)"
    "dt_hour dt < 24" "dt_minute dt < 60" "dt_second dt < 60"
    using v by (simp_all add: valid_datetime_def)
  show ?thesis
  proof (cases "1 < dt_day dt")
    case True
    then show ?thesis using b
      by (auto simp add: prev_day_def valid_datetime_def toordinal_def)
  next
    case False
    then have d1: "dt_day dt = 1" using b(5) by linarith
    show ?thesis
    proof (cases "1 < dt_month dt")
      case True
      define m where "m = dt_month dt - 1"
      have m: "1 \<le> m" "m < 12" "dt_month dt = Suc m" using True b(4) by (simp_all add: m_def)
      have s: "days_before_month (dt_year dt) (Suc m)
                 = days_before_month (dt_year dt) m + days_in_month (dt_year dt) m"
        using m(1,2) by (rule days_before_month_Suc)
      have p: "prev_day dt = dt\<lparr>dt_month := m, dt_day := days_in_month (dt_year dt) m\<rparr>"
        using True d1 by (simp add: prev_day_def m_def)
      have p28: "28 \<le> days_in_month (dt_year dt) m" by (rule days_in_month_pos)
      show ?thesis unfolding p using b m s d1 p28
        by (simp add: valid_datetime_def toordinal_def)
    next
      case False
      then have m1: "dt_month dt = 1" using b(3) by linarith
      have "toordinal dt = days_before_year (dt_year dt) + 1"
        by (simp add: toordinal_def m1 d1 days_before_month_1)
      then have "dt_year dt \<noteq> 1" using o by (auto simp: days_before_year_1)
      then obtain y where y: "dt_year dt = Suc y" "1 \<le> y" "y \<le> 9999"
        using b(1,2) by (cases "dt_year dt") auto
      have s: "days_before_year (Suc y) = days_before_year y + (if is_leap y then 366 else 365)"
        using y(2) by (rule days_before_year_Suc)
      have t: "days_before_month y 12 + 31 = (if is_leap y then 366 else 365)"
        by (rule days_before_month_12)
      have p: "prev_day dt = dt\<lparr>dt_year := y, dt_month := 12, dt_day := 31\<rparr>"
        using m1 d1 y by (simp add: prev_day_def)
      have dim: "days_in_month y 12 = 31" by (simp add: days_in_month_def)
      show ?thesis unfolding p using b y s t m1 d1 dim
        by (simp add: valid_datetime_def toordinal_def days_before_month_1)
    qed
  qed
qed

lemma toordinal_pos: "valid_datetime dt \<Longrightarrow> 1 \<le> toordinal dt"
  by (simp add: valid_datetime_def toordinal_def)

lemma funpow_prev_day_ok:
  assumes v: "valid_datetime dt" and o: "n < toordinal dt"
  shows "valid_datetime ((prev_day ^^ n) dt) \<and> toordinal ((prev_day ^^ n) dt) = toordinal dt - n
         \<and> dt_hour ((prev_day ^^ n) dt) = dt_hour dt
         \<and> dt_minute ((prev_day ^^ n) dt) = dt_minute dt
         \<and> dt_second ((prev_day ^^ n) dt) = dt_second dt"
  using o
proof (induction n)
  case 0
  then show ?case using v by simp
next
  case (Suc n)
  then have ih: "valid_datetime ((prev_day ^^ n) dt)"
    "toordinal ((prev_day ^^ n) dt) = toordinal dt - n"
    "dt_hour ((prev_day ^^ n) dt) = dt_hour dt"
    "dt_minute ((prev_day ^^ n) dt) = dt_minute dt"
    "dt_second ((prev_day ^^ n) dt) = dt_second dt" by simp_all
  have "1 < toordinal ((prev_day ^^ n) dt)" using Suc.prems ih(2) by simp
  from prev_day_ok[OF ih(1) this] show ?case using ih by simp
qed

lemma to_seconds_funpow_prev_day:
  assumes v: "valid_datetime dt" and o: "n < toordinal dt"
  shows "to_seconds ((prev_day ^^ n) dt) + n * 86400 = to_seconds dt"
proof -
  note h = funpow_prev_day_ok[OF v o]
  have "toordinal dt - n - 1 + n = toordinal dt - 1" using o by simp
  then have "(toordinal dt - n - 1) * 86400 + n * 86400 = (toordinal dt - 1) * 86400"
    by (metis add_mult_distrib)
  then show ?thesis using h by (simp add: to_seconds_def)
qed

lemma days_before_year_mono:
  assumes "y \<le> y'"
  shows "days_before_year y \<le> days_before_year y'"
proof -
  have step: "days_before_year n \<le> days_before_year (Suc n)" for n
  proof (cases n)
    case 0 then show ?thesis by (simp add: days_before_year_def)
  next
    case (Suc k) then show ?thesis using days_before_year_Suc[of n] by simp
  qed
  show ?thesis using step assms by (rule lift_Suc_mono_le)
qed

lemma day_of_year_le:
  assumes "1 \<le> m" "m \<le> 12"
  shows "days_before_month y m + days_in_month y m \<le> (if is_leap y then 366 else 365)"
  using month_cases[OF assms]
  by (elim disjE) (simp_all add: days_before_month_def days_in_month_def eval_nat_numeral)

lemma days_before_month_mono:
  assumes "1 \<le> m" "m \<le> m'" "m' \<le> 12"
  shows "days_before_month y m \<le> days_before_month y m'"
  using assms(2,1,3)
proof (induction rule: dec_induct)
  case base then show ?case by simp
next
  case (step k)
  then have "days_before_month y (Suc k) = days_before_month y k + days_in_month y k"
    by (intro days_before_month_Suc) simp_all
  then show ?case using step by simp
qed

lemma toordinal_less:
  assumes va: "valid_datetime a" and vb: "valid_datetime b" and l: "date_less a b"
  shows "toordinal a < toordinal b"
proof -
  have a: "1 \<le> dt_year a" "1 \<le> dt_month a" "dt_month a \<le> 12" "1 \<le> dt_day a"
    "dt_day a \<le> days_in_month (dt_year a) (dt_month a)"
    using va by (simp_all add: valid_datetime_def)
  have b: "1 \<le> dt_year b" "1 \<le> dt_month b" "dt_month b \<le> 12" "1 \<le> dt_day b"
    "dt_day b \<le> days_in_month (dt_year b) (dt_month b)"
    using vb by (simp_all add: valid_datetime_def)
  consider (y) "dt_year a < dt_year b"
    | (m) "dt_year a = dt_year b" "dt_month a < dt_month b"
    | (d) "dt_year a = dt_year b" "dt_month a = dt_month b" "dt_day a < dt_day b"
    using l unfolding date_less_def by blast
  then show ?thesis
  proof cases
    case y
    have 1: "days_before_month (dt_year a) (dt_month a) + days_in_month (dt_year a) (dt_month a)
             \<le> (if is_leap (dt_year a) then 366 else 365)"
      using a(2,3) by (rule day_of_year_le)
    have 2: "days_before_year (Suc (dt_year a))
             = days_before_year (dt_year a) + (if is_leap (dt_year a) then 366 else 365)"
      using a(1) by (rule days_before_year_Suc)
    have 3: "days_before_year (Suc (dt_year a)) \<le> days_before_year (dt_year b)"
      using y by (intro days_before_year_mono) simp
    show ?thesis unfolding toordinal_def using 1 2 3 a(5) b(4) by linarith
  next
    case m
    have 1: "days_before_month (dt_year a) (Suc (dt_month a))
             = days_before_month (dt_year a) (dt_month a) + days_in_month (dt_year a) (dt_month a)"
      using a(2) m(2) b(3) by (intro days_before_month_Suc) simp_all
    have 2: "days_before_month (dt_year a) (Suc (dt_month a))
             \<le> days_before_month (dt_year a) (dt_month b)"
      using m(2) b(3) by (intro days_before_month_mono) simp_all
    show ?thesis unfolding toordinal_def using 1 2 a(5) b(4) m(1) by simp
  next
    case d
    then show ?thesis unfolding toordinal_def by simp
  qed
qed

lemma date_trichotomy: "date_less a b \<or> same_date a b \<or> date_less b a"
  unfolding date_less_def same_date_def by linarith
lemma time_trichotomy:
  "time_less a b \<or> (dt_hour a = dt_hour b \<and> dt_minute a = dt_minute b \<and> dt_second a = dt_second b)
   \<or> time_less b a"
  unfolding time_less_def by linarith

lemma datetime_eqI:
  fixes a b :: datetime
  assumes "dt_year a = dt_year b" "dt_month a = dt_month b" "dt_day a = dt_day b"
    "dt_hour a = dt_hour b" "dt_minute a = dt_minute b" "dt_second a = dt_second b"
  shows "a = b"
  using assms by (intro datetime.equality) simp_all

lemma seconds_step:
  fixes oa ob :: nat
  assumes "1 \<le> oa" "oa < ob" "ta < 86400"
  shows "(oa - 1) * 86400 + ta < (ob - 1) * 86400 + tb"
proof -
  have "Suc (oa - 1) \<le> ob - 1" using assms(1,2) by linarith
  then have "Suc (oa - 1) * 86400 \<le> (ob - 1) * 86400" by (rule mult_le_mono1)
  then show ?thesis using assms(3) by simp
qed

lemma time_arith:
  fixes h m s h' m' s' :: nat
  assumes b: "m < 60" "s < 60" "m' < 60" "s' < 60"
    and l: "h < h' \<or> h = h' \<and> (m < m' \<or> m = m' \<and> s < s')"
  shows "h * 3600 + m * 60 + s < h' * 3600 + m' * 60 + s'"
proof -
  from l consider (h) "h < h'" | (m) "h = h'" "m < m'" | (s) "h = h'" "m = m'" "s < s'" by blast
  then show ?thesis
  proof cases
    case h
    then have "Suc h \<le> h'" by simp
    then have 1: "Suc h * 3600 \<le> h' * 3600" by (rule mult_le_mono1)
    have "m \<le> 59" using b(1) by simp
    then have 2: "m * 60 \<le> 59 * 60" by (rule mult_le_mono1)
    show ?thesis using 1 2 b(2) by simp
  next
    case m
    then have "Suc m \<le> m'" by simp
    then have "Suc m * 60 \<le> m' * 60" by (rule mult_le_mono1)
    then show ?thesis using m(1) b(2) by simp
  next
    case s
    then show ?thesis by simp
  qed
qed

lemma dt_less_trichotomy: "dt_less a b \<or> a = b \<or> dt_less b a"
proof -
  have s: "same_date a b \<Longrightarrow> same_date b a" by (simp add: same_date_def)
  have e: "same_date a b \<Longrightarrow> dt_hour a = dt_hour b \<and> dt_minute a = dt_minute b \<and> dt_second a = dt_second b \<Longrightarrow> a = b"
    unfolding same_date_def by (intro datetime_eqI) simp_all
  show ?thesis unfolding dt_less_def
    using date_trichotomy[of a b] time_trichotomy[of a b] s e by blast
qed

lemma to_seconds_less:
  assumes va: "valid_datetime a" and vb: "valid_datetime b" and l: "dt_less a b"
  shows "to_seconds a < to_seconds b"
proof -
  have ta: "dt_hour a < 24" "dt_minute a < 60" "dt_second a < 60"
    using va by (simp_all add: valid_datetime_def)
  have tb: "dt_hour b < 24" "dt_minute b < 60" "dt_second b < 60"
    using vb by (simp_all add: valid_datetime_def)
  from l consider (dl) "date_less a b" | (tl) "same_date a b" "time_less a b"
    unfolding dt_less_def by blast
  then show ?thesis
  proof cases
    case dl
    have 1: "toordinal a < toordinal b" using va vb dl by (rule toordinal_less)
    have 2: "1 \<le> toordinal a" using va by (rule toordinal_pos)
    have "dt_hour a \<le> 23" using ta(1) by simp
    then have "dt_hour a * 3600 \<le> 23 * 3600" by (rule mult_le_mono1)
    moreover have "dt_minute a \<le> 59" using ta(2) by simp
    then have "dt_minute a * 60 \<le> 59 * 60" by (rule mult_le_mono1)
    ultimately have 3: "dt_hour a * 3600 + dt_minute a * 60 + dt_second a < 86400"
      using ta(3) by simp
    have "(toordinal a - 1) * 86400 + (dt_hour a * 3600 + dt_minute a * 60 + dt_second a)
          < (toordinal b - 1) * 86400 + (dt_hour b * 3600 + dt_minute b * 60 + dt_second b)"
      using 2 1 3 by (rule seconds_step)
    then show ?thesis unfolding to_seconds_def by simp
  next
    case tl
    have e: "toordinal a = toordinal b" using tl(1) by (simp add: same_date_def toordinal_def)
    have "dt_hour a * 3600 + dt_minute a * 60 + dt_second a
          < dt_hour b * 3600 + dt_minute b * 60 + dt_second b"
      using ta(2,3) tb(2,3) tl(2)[unfolded time_less_def] by (rule time_arith)
    then show ?thesis unfolding to_seconds_def e by simp
  qed
qed

lemma to_seconds_less_iff:
  assumes va: "valid_datetime a" and vb: "valid_datetime b"
  shows "to_seconds a < to_seconds b \<longleftrightarrow> dt_less a b"
proof
  assume l: "to_seconds a < to_seconds b"
  show "dt_less a b"
  proof (rule ccontr)
    assume "\<not> dt_less a b"
    then have "a = b \<or> dt_less b a" using dt_less_trichotomy[of a b] by blast
    then show False
    proof
      assume "a = b" then show False using l by simp
    next
      assume "dt_less b a"
      then have "to_seconds b < to_seconds a" using vb va by (intro to_seconds_less)
      then show False using l by simp
    qed
  qed
next
  assume "dt_less a b" then show "to_seconds a < to_seconds b" using va vb by (intro to_seconds_less)
qed

section \<open>Facts about canonical stamps\<close>

lemma strptime_valid: "strptime s fmt = Inr dt \<Longrightarrow> valid_datetime dt"
  by (auto simp: strptime_def split: option.splits if_splits)

lemma canonical_strftime: "valid_datetime dt \<Longrightarrow> canonical (strftime dt iso_format)"
  by (simp add: canonical_def strptime_strftime)

lemma canonical_iff: "canonical ts \<longleftrightarrow> (\<exists>dt. valid_datetime dt \<and> ts = strftime dt iso_format)"
proof
  assume "canonical ts"
  then obtain dt where "strptime ts iso_format = Inr dt" "strftime dt iso_format = ts"
    by (auto simp: canonical_def split: sum.splits)
  then show "\<exists>dt. valid_datetime dt \<and> ts = strftime dt iso_format"
    using strptime_valid by blast
next
  assume "\<exists>dt. valid_datetime dt \<and> ts = strftime dt iso_format"
  then show "canonical ts" using canonical_strftime by blast
qed

lemma seconds_of_strftime: "valid_datetime dt \<Longrightarrow> seconds_of (strftime dt iso_format) = to_seconds dt"
  by (simp add: seconds_of_def strptime_strftime)

lemma canonical_less_iff:
  assumes "canonical a" "canonical b"
  shows "a < b \<longleftrightarrow> seconds_of a < seconds_of b"
proof -
  obtain x y where x: "valid_datetime x" "a = strftime x iso_format"
    and y: "valid_datetime y" "b = strftime y iso_format"
    using assms unfolding canonical_iff by blast
  show ?thesis unfolding x(2) y(2)
    by (simp only: seconds_of_strftime[OF x(1)] seconds_of_strftime[OF y(1)]
        strftime_less_iff[OF x(1) y(1)] to_seconds_less_iff[OF x(1) y(1)])
qed

lemma canonical_le_iff:
  assumes "canonical a" "canonical b"
  shows "a \<le> b \<longleftrightarrow> seconds_of a \<le> seconds_of b"
proof -
  have "a \<le> b \<longleftrightarrow> \<not> b < a" by (rule linorder_not_less[symmetric])
  also have "\<dots> \<longleftrightarrow> \<not> seconds_of b < seconds_of a"
    by (simp only: canonical_less_iff[OF assms(2) assms(1)])
  also have "\<dots> \<longleftrightarrow> seconds_of a \<le> seconds_of b" by (rule linorder_not_less)
  finally show ?thesis .
qed

lemma strip_strftime: "strip (strftime dt iso_format) = strftime dt iso_format"
  by (simp add: strip_def strftime_iso pad4_def pad2_def not_space_digit)

lemma parse_it_date_strftime:
  "valid_datetime dt \<Longrightarrow> parse_it_date (strftime dt iso_format) = Inr dt"
  unfolding parse_it_date_def strip_strftime date_formats_def
  using strptime_strftime[of dt] by (simp add: iso_format_def)

lemma normalize_to_iso_strftime:
  "valid_datetime dt \<Longrightarrow> normalize_to_iso (strftime dt iso_format) flag = Inr (strftime dt iso_format)"
  by (simp add: normalize_to_iso_def parse_it_date_strftime strip_strftime length_strftime_iso)

section \<open>Facts about the queries\<close>

lemma sorted_le_last:
  fixes xs :: "'a::linorder list"
  shows "sorted xs \<Longrightarrow> x \<in> set xs \<Longrightarrow> x \<le> last xs"
proof (induction xs)
  case Nil then show ?case by simp
next
  case (Cons a xs)
  show ?case
  proof (cases "xs = []")
    case True then show ?thesis using Cons.prems by simp
  next
    case False
    then have l: "last (a # xs) = last xs" by simp
    have "last xs \<in> set xs" using False by (rule last_in_set)
    then have "a \<le> last xs" using Cons.prems(1) by simp
    moreover have "x \<in> set xs \<Longrightarrow> x \<le> last xs" using Cons.IH Cons.prems(1) by simp
    ultimately show ?thesis using Cons.prems(2) l by auto
  qed
qed

lemma fetch_last_record_max:
  assumes "db \<noteq> []"
  shows "\<exists>l. fetch_last_record db = Some l \<and> l \<in> set db
             \<and> (\<forall>r\<in>set db. timestamp r \<le> timestamp l)"
proof -
  define s where "s = sort_key timestamp db"
  have ne: "s \<noteq> []" using assms unfolding s_def by (metis length_sort length_0_conv)
  have st: "set s = set db" unfolding s_def by simp
  have so: "sorted (map timestamp s)" unfolding s_def by (rule sorted_sort_key)
  have r: "rev s = last s # rev (butlast s)"
    using ne by (metis append_butlast_last_id rev.simps(2) rev_append rev_rev_ident append_Cons append_Nil rev_singleton_conv)
  have f: "fetch_last_record db = Some (last s)"
    unfolding fetch_last_record_def s_def[symmetric] by (subst r) simp
  have m: "\<forall>r\<in>set db. timestamp r \<le> timestamp (last s)"
  proof
    fix r assume "r \<in> set db"
    then have "timestamp r \<in> set (map timestamp s)" using st by simp
    then have "timestamp r \<le> last (map timestamp s)" using so by (intro sorted_le_last)
    then show "timestamp r \<le> timestamp (last s)" using ne by (simp add: last_map)
  qed
  have "last s \<in> set db" using ne st by (metis last_in_set)
  then show ?thesis using f m by blast
qed

lemma fetch_last_record_empty: "fetch_last_record [] = None"
  by (simp add: fetch_last_record_def)

lemma strftime_iso_nonempty: "strftime dt iso_format \<noteq> []"
  using length_strftime_iso[of dt] by auto

lemma fetch_records_between:
  assumes "valid_datetime a" "valid_datetime b"
  shows "fetch_records (Some (strftime a iso_format)) (Some (strftime b iso_format)) db
         = Inr (sort_key timestamp
                  (filter (\<lambda>r. strftime a iso_format \<le> timestamp r
                               \<and> timestamp r \<le> strftime b iso_format) db))"
  using assms by (simp add: fetch_records_def truthy_def strftime_iso_nonempty normalize_to_iso_strftime)

lemma to_seconds_ordinal:
  assumes "valid_datetime dt"
  shows "30 * 86400 \<le> to_seconds dt \<longleftrightarrow> 30 < toordinal dt"
proof -
  have t: "dt_hour dt \<le> 23" "dt_minute dt \<le> 59" "dt_second dt < 60"
    using assms by (simp_all add: valid_datetime_def)
  have "dt_hour dt * 3600 \<le> 23 * 3600" using t(1) by (rule mult_le_mono1)
  moreover have "dt_minute dt * 60 \<le> 59 * 60" using t(2) by (rule mult_le_mono1)
  ultimately have tod: "dt_hour dt * 3600 + dt_minute dt * 60 + dt_second dt < 86400"
    using t(3) by simp
  show ?thesis
  proof
    assume h: "30 * 86400 \<le> to_seconds dt"
    show "30 < toordinal dt"
    proof (rule ccontr)
      assume "\<not> 30 < toordinal dt"
      then have "toordinal dt - 1 \<le> 29" by simp
      then have "(toordinal dt - 1) * 86400 \<le> 29 * 86400" by (rule mult_le_mono1)
      then show False using h tod unfolding to_seconds_def by simp
    qed
  next
    assume "30 < toordinal dt"
    then have "30 \<le> toordinal dt - 1" by simp
    then have "30 * 86400 \<le> (toordinal dt - 1) * 86400" by (rule mult_le_mono1)
    then show "30 * 86400 \<le> to_seconds dt" unfolding to_seconds_def by simp
  qed
qed

section \<open>Snapshot aggregation: the window (C1)\<close>

lemmas stamp_eval =
  strptime_def tokens_iso space_day_def group_ok_def set_field_def is_digit_iff is_space_def
  nat_of_digits_def digit_val_def valid_datetime_def days_in_month_def is_leap_def Let_def

lemmas print_eval = strftime_iso pad4_def pad2_def digit_char_def char_of_eq_iff

lemma scenario_stamp:
  "strftime scenario_time iso_format = ''2024-01-10 08:00:00''"
  by (simp add: scenario_time_def print_eval)

lemma scenario_valid: "valid_datetime scenario_time"
  by (simp add: scenario_time_def valid_datetime_def days_in_month_def)

lemma scenario_canonical: "canonical ''2024-01-10 08:00:00''"
  using canonical_strftime[OF scenario_valid] by (simp only: scenario_stamp)

lemma scenario_seconds: "30 * 86400 \<le> seconds_of ''2024-01-10 08:00:00''"
proof -
  have "30 < toordinal scenario_time"
    by (simp add: toordinal_def scenario_time_def days_before_year_def days_before_month_def)
  then have "30 * 86400 \<le> to_seconds scenario_time"
    using to_seconds_ordinal[OF scenario_valid] by blast
  then show ?thesis
    using seconds_of_strftime[OF scenario_valid] by (simp only: scenario_stamp)
qed

lemma aggregate_canonical:
  assumes ne: "db \<noteq> []" and inv: "store_canonical db"
    and rep: "\<exists>r\<in>set db. 30 * 86400 \<le> seconds_of (timestamp r)"
  shows "\<exists>snap. aggregate db = Inr snap
           \<and> fetch_last_record db = Some (latest snap)
           \<and> latest snap \<in> set db
           \<and> (\<forall>r\<in>set db. seconds_of (timestamp r) \<le> seconds_of (timestamp (latest snap)))
           \<and> 30 * 86400 \<le> seconds_of (timestamp (latest snap))
           \<and> readings snap = sort_key timestamp
                 (filter (\<lambda>r. seconds_of (timestamp (latest snap)) - 30 * 86400
                                 \<le> seconds_of (timestamp r)
                               \<and> seconds_of (timestamp r) \<le> seconds_of (timestamp (latest snap))) db)
           \<and> sorted (map (\<lambda>r. seconds_of (timestamp r)) (readings snap))"
proof -
  have can: "canonical (timestamp r)" if "r \<in> set db" for r
    using inv that by (simp add: store_canonical_def list_all_iff)
  obtain l where l: "fetch_last_record db = Some l" "l \<in> set db"
    "\<forall>r\<in>set db. timestamp r \<le> timestamp l"
    using fetch_last_record_max[OF ne] by blast
  obtain ldt where ldt: "valid_datetime ldt" "timestamp l = strftime ldt iso_format"
    using can[OF l(2)] unfolding canonical_iff by blast
  have p: "strptime (timestamp l) iso_format = Inr ldt"
    unfolding ldt(2) using ldt(1) by (rule strptime_strftime)
  have sl: "seconds_of (timestamp l) = to_seconds ldt"
    unfolding ldt(2) using ldt(1) by (rule seconds_of_strftime)
  have mx: "seconds_of (timestamp r) \<le> seconds_of (timestamp l)" if "r \<in> set db" for r
    using l(3) that canonical_le_iff[OF can[OF that] can[OF l(2)]] by blast
  obtain r0 where r0: "r0 \<in> set db" "30 * 86400 \<le> seconds_of (timestamp r0)"
    using rep by blast
  have big: "30 * 86400 \<le> to_seconds ldt" using r0(2) mx[OF r0(1)] sl by linarith
  then have ord: "30 < toordinal ldt" using to_seconds_ordinal[OF ldt(1)] by blast
  define sdt where "sdt = (prev_day ^^ 30) ldt"
  have md: "minus_days ldt 30 = Inr sdt" using ord by (simp add: minus_days_def sdt_def)
  have sv: "valid_datetime sdt" unfolding sdt_def using funpow_prev_day_ok[OF ldt(1) ord] by blast
  have ss: "to_seconds sdt + 30 * 86400 = to_seconds ldt"
    unfolding sdt_def using ldt(1) ord by (rule to_seconds_funpow_prev_day)
  define recs where "recs = sort_key timestamp
     (filter (\<lambda>r. strftime sdt iso_format \<le> timestamp r \<and> timestamp r \<le> strftime ldt iso_format) db)"
  have fr: "fetch_records (Some (strftime sdt iso_format)) (Some (strftime ldt iso_format)) db = Inr recs"
    unfolding recs_def using sv ldt(1) by (rule fetch_records_between)
  have ag: "aggregate db = Inr \<lparr>latest = l, readings = recs\<rparr>"
    by (simp add: aggregate_def l(1) p md fr)
  have sc: "canonical (strftime sdt iso_format)" using sv by (rule canonical_strftime)
  have ssec: "seconds_of (strftime sdt iso_format) = to_seconds sdt" using sv by (rule seconds_of_strftime)
  have feq: "filter (\<lambda>r. strftime sdt iso_format \<le> timestamp r \<and> timestamp r \<le> strftime ldt iso_format) db
        = filter (\<lambda>r. seconds_of (timestamp l) - 30 * 86400 \<le> seconds_of (timestamp r)
                     \<and> seconds_of (timestamp r) \<le> seconds_of (timestamp l)) db"
  proof (rule filter_cong[OF refl])
    fix r assume r: "r \<in> set db"
    have a: "strftime sdt iso_format \<le> timestamp r \<longleftrightarrow> to_seconds sdt \<le> seconds_of (timestamp r)"
      using canonical_le_iff[OF sc can[OF r]] ssec by simp
    have b: "timestamp r \<le> strftime ldt iso_format \<longleftrightarrow> seconds_of (timestamp r) \<le> seconds_of (timestamp l)"
      using canonical_le_iff[OF can[OF r] can[OF l(2)]] ldt(2) by simp
    have c: "seconds_of (timestamp l) - 30 * 86400 = to_seconds sdt" using sl ss by linarith
    show "(strftime sdt iso_format \<le> timestamp r \<and> timestamp r \<le> strftime ldt iso_format)
        = (seconds_of (timestamp l) - 30 * 86400 \<le> seconds_of (timestamp r)
             \<and> seconds_of (timestamp r) \<le> seconds_of (timestamp l))"
      unfolding a b c by (rule refl)
  qed
  have sub: "set recs \<subseteq> set db" unfolding recs_def by auto
  have "sorted (map timestamp recs)" unfolding recs_def by (rule sorted_sort_key)
  then have "sorted_wrt (\<lambda>x y. timestamp x \<le> timestamp y) recs" by (simp add: sorted_map)
  then have "sorted_wrt (\<lambda>x y. seconds_of (timestamp x) \<le> seconds_of (timestamp y)) recs"
  proof (rule sorted_wrt_mono_rel[rotated])
    fix x y assume "x \<in> set recs" "y \<in> set recs" "timestamp x \<le> timestamp y"
    then show "seconds_of (timestamp x) \<le> seconds_of (timestamp y)"
      using canonical_le_iff[of "timestamp x" "timestamp y"] can sub by blast
  qed
  then have srt: "sorted (map (\<lambda>r. seconds_of (timestamp r)) recs)" by (simp add: sorted_map)
  have rr: "recs = sort_key timestamp
                 (filter (\<lambda>r. seconds_of (timestamp l) - 30 * 86400 \<le> seconds_of (timestamp r)
                               \<and> seconds_of (timestamp r) \<le> seconds_of (timestamp l)) db)"
    unfolding recs_def feq by (rule refl)
  have bl: "30 * 86400 \<le> seconds_of (timestamp l)" using big sl by simp
  show ?thesis
    apply (rule exI[of _ "\<lparr>latest = l, readings = recs\<rparr>"])
    using ag l(1,2) mx bl rr srt by simp
qed

text \<open>
  Claim C1, as amended. For every store with at least one reading, in which every stamp
  is canonical and some reading is not earlier than 0001-01-31 00:00:00, aggregation
  returns a snapshot: its most recent reading is the row \<^verbatim>\<open>fetch_last_record\<close> returns, a row
  of the store with the greatest time; its readings are exactly the rows whose time lies
  in the closed interval from that time minus 30 times 24 hours to that time, in ascending
  order of time.
\<close>

theorem aggregate_window:
  assumes ne: "db \<noteq> []" and inv: "store_canonical db"
    and rep: "\<exists>r\<in>set db. 30 * 86400 \<le> seconds_of (timestamp r)"
  shows "\<exists>snap. aggregate db = Inr snap
           \<and> fetch_last_record db = Some (latest snap)
           \<and> latest snap \<in> set db
           \<and> (\<forall>r\<in>set db. seconds_of (timestamp r) \<le> seconds_of (timestamp (latest snap)))
           \<and> 30 * 86400 \<le> seconds_of (timestamp (latest snap))
           \<and> readings snap = sort_key timestamp
                 (filter (\<lambda>r. seconds_of (timestamp (latest snap)) - 30 * 86400
                                 \<le> seconds_of (timestamp r)
                               \<and> seconds_of (timestamp r) \<le> seconds_of (timestamp (latest snap))) db)
           \<and> sorted (map (\<lambda>r. seconds_of (timestamp r)) (readings snap))"
  using ne inv rep by (rule aggregate_canonical)

text \<open>
  Witness for C1: the store of the scenario of the specification, one reading at
  2024-01-10 08:00:00.
\<close>

theorem aggregate_window_witness:
  "[reading_at ''2024-01-10 08:00:00''] \<noteq> []
   \<and> store_canonical [reading_at ''2024-01-10 08:00:00'']
   \<and> (\<exists>snap. aggregate [reading_at ''2024-01-10 08:00:00''] = Inr snap
         \<and> fetch_last_record [reading_at ''2024-01-10 08:00:00''] = Some (latest snap)
         \<and> readings snap = [reading_at ''2024-01-10 08:00:00''])"
proof -
  let ?db = "[reading_at ''2024-01-10 08:00:00'']"
  have ne: "?db \<noteq> []" by simp
  have inv: "store_canonical ?db"
    by (simp add: store_canonical_def reading_at_def scenario_canonical)
  have rep: "\<exists>r\<in>set ?db. 30 * 86400 \<le> seconds_of (timestamp r)"
    using scenario_seconds by (simp add: reading_at_def)
  obtain snap where s: "aggregate ?db = Inr snap" "fetch_last_record ?db = Some (latest snap)"
    "readings snap = sort_key timestamp
       (filter (\<lambda>r. seconds_of (timestamp (latest snap)) - 30 * 86400 \<le> seconds_of (timestamp r)
                   \<and> seconds_of (timestamp r) \<le> seconds_of (timestamp (latest snap))) ?db)"
    using aggregate_window[OF ne inv rep] by blast
  have l: "latest snap = reading_at ''2024-01-10 08:00:00''"
    using s(2) by (simp add: fetch_last_record_def)
  have "readings snap = ?db" unfolding s(3) l by simp
  then show ?thesis using ne inv s(1,2) by blast
qed

text \<open>
  Counterexample to C1 as stated: a store with one reading on 0001-01-10, whose window
  would start before the first day a \<^verbatim>\<open>datetime\<close> can hold (\<^verbatim>\<open>OverflowError\<close>), and a store
  whose only stamp is written with a \<^verbatim>\<open>T\<close> between date and time (\<^verbatim>\<open>ValueError\<close>). Neither
  gets a snapshot.
\<close>

theorem aggregate_window_counterexample:
  "aggregate [reading_at ''0001-01-10 08:00:00''] = Inl OverflowError
   \<and> aggregate [reading_at ''2024-01-10T08:00:00''] = Inl ValueError"
proof -
  define d where
    "d = \<lparr>dt_year = 1, dt_month = 1, dt_day = 10, dt_hour = 8, dt_minute = 0, dt_second = 0\<rparr>"
  have p: "strptime ''0001-01-10 08:00:00'' iso_format = Inr d"
    unfolding d_def by (simp add: stamp_eval)
  have o: "toordinal d = 10"
    unfolding d_def by (simp add: toordinal_def days_before_year_def days_before_month_def)
  have m: "minus_days d 30 = Inl OverflowError"
    by (simp add: minus_days_def o)
  have q: "strptime ''2024-01-10T08:00:00'' iso_format = Inl ValueError"
    by (simp add: stamp_eval)
  have 1: "aggregate [reading_at ''0001-01-10 08:00:00''] = Inl OverflowError"
    by (simp add: aggregate_def fetch_last_record_def reading_at_def p m)
  have 2: "aggregate [reading_at ''2024-01-10T08:00:00''] = Inl ValueError"
    by (simp add: aggregate_def fetch_last_record_def reading_at_def q)
  show ?thesis using 1 2 by (rule conjI)
qed

section \<open>The canonical form of stamps (C10)\<close>

text \<open>
  Claim C10, as amended. \<^verbatim>\<open>insert_record\<close> stamps the row it writes with a canonical
  stamp and keeps every stamp of the table canonical; \<^verbatim>\<open>init_db\<close> changes no row; on
  canonical stamps the byte order of the text, which the range queries and \<^verbatim>\<open>ORDER BY\<close>
  use, is the order of time. \<^verbatim>\<open>restore_database\<close> keeps the invariant only when the
  table of the restored file has it, and leaves the table alone when nothing is restored.
\<close>

theorem canonical_invariant:
  assumes now: "valid_datetime now" and inv: "store_canonical db"
  shows "fst (insert_record now v1 v2 v3 v4 v5 e a p db) = strftime now iso_format
     \<and> canonical (fst (insert_record now v1 v2 v3 v4 v5 e a p db))
     \<and> store_canonical (snd (insert_record now v1 v2 v3 v4 v5 e a p db))
     \<and> store_canonical (init_db db)
     \<and> (\<forall>x y. canonical x \<and> canonical y \<longrightarrow>
            ((x \<le> y) = (seconds_of x \<le> seconds_of y))
          \<and> ((x < y) = (seconds_of x < seconds_of y)))
     \<and> (\<forall>backup c. store_canonical backup \<longrightarrow>
            store_canonical (restore_database (Some backup) c db))
     \<and> (\<forall>c. restore_database None c db = db)"
proof -
  have c: "canonical (strftime now iso_format)" using now by (rule canonical_strftime)
  have 1: "fst (insert_record now v1 v2 v3 v4 v5 e a p db) = strftime now iso_format"
    by (simp add: insert_record_def Let_def)
  have 2: "store_canonical (snd (insert_record now v1 v2 v3 v4 v5 e a p db))"
    using inv c by (simp add: insert_record_def Let_def store_canonical_def)
  have 3: "store_canonical (init_db db)" using inv by (simp add: init_db_def)
  have 4: "\<forall>x y. canonical x \<and> canonical y \<longrightarrow>
            ((x \<le> y) = (seconds_of x \<le> seconds_of y))
          \<and> ((x < y) = (seconds_of x < seconds_of y))"
    using canonical_le_iff canonical_less_iff by blast
  have 5: "\<forall>backup c. store_canonical backup \<longrightarrow>
            store_canonical (restore_database (Some backup) c db)"
    using inv by (simp add: restore_database_def)
  have 6: "\<forall>c. restore_database None c db = db" by (simp add: restore_database_def)
  show ?thesis using 1 2 3 4 5 6 c by simp
qed

text \<open>
  Witness for C10: the first reading of the scenario, written into the empty table at
  2024-01-10 08:00:00.
\<close>

theorem canonical_invariant_witness:
  "valid_datetime scenario_time \<and> store_canonical ([] :: int store)
   \<and> fst (insert_record scenario_time (2090::int) 4500 2150 4400 2130 ''SI'' ''NO'' ''MRossi'' [])
       = ''2024-01-10 08:00:00''
   \<and> store_canonical
        (snd (insert_record scenario_time (2090::int) 4500 2150 4400 2130 ''SI'' ''NO'' ''MRossi'' []))"
proof -
  have e: "store_canonical ([] :: int store)" by (simp add: store_canonical_def)
  show ?thesis
    using canonical_invariant[OF scenario_valid e, of 2090 4500 2150 4400 2130 "''SI''" "''NO''" "''MRossi''"]
      scenario_valid e scenario_stamp by simp
qed

text \<open>
  Counterexample to C10 as stated: restoring a backup whose table holds a stamp in the
  display form \<^verbatim>\<open>DD/MM/YYYY HH:MM\<close> over an empty table breaks the invariant.
\<close>

theorem canonical_invariant_counterexample:
  "store_canonical ([] :: unit store)
   \<and> \<not> store_canonical (restore_database (Some [reading_at ''10/01/2024 08:00'']) True [])"
proof -
  have "\<not> canonical ''10/01/2024 08:00''"
    by (simp add: canonical_def stamp_eval)
  then show ?thesis
    by (simp add: store_canonical_def restore_database_def reading_at_def)
qed

section \<open>Facts about the resolver\<close>

lemma first_found_simps [simp]:
  "first_found [] = None"
  "first_found (None # cs) = first_found cs"
  "first_found (Some p # cs) = Some p"
  by (simp_all add: first_found_def)

lemma first_found_append:
  "first_found (a @ b) = (case first_found a of None \<Rightarrow> first_found b | Some p \<Rightarrow> Some p)"
proof (induction a)
  case Nil then show ?case by simp
next
  case (Cons c a) then show ?case by (cases c) simp_all
qed

lemma which_first_spec: "which_first w names = first_found (path_candidates w names)"
  by (induction names) (auto simp: path_candidates_def split: option.splits)

lemma probe_suffixes_spec:
  "probe_suffixes w d base sufs =
   first_found (map (\<lambda>suf. (let cand = path_join (os_sep w) d (base @ suf)
                             in if isfile w cand then Some cand else None)) sufs)"
  by (induction sufs) (simp_all add: Let_def)

lemma probe_dirs_spec:
  "probe_dirs w base ds =
   first_found (concat (map (\<lambda>d. map (\<lambda>suf. (let cand = path_join (os_sep w) d (base @ suf)
                             in if isfile w cand then Some cand else None)) exe_suffixes) ds))"
proof (induction ds)
  case Nil then show ?case by simp
next
  case (Cons d ds)
  then show ?case
    by (simp add: first_found_append probe_suffixes_spec split: option.splits)
qed

lemma probe_names_spec: "probe_names w dirs names = first_found (dir_candidates w dirs names)"
proof (induction names)
  case Nil then show ?case by (simp add: dir_candidates_def)
next
  case (Cons base names)
  have "dir_candidates w dirs (base # names) =
        concat (map (\<lambda>d. map (\<lambda>suf. (let cand = path_join (os_sep w) d (base @ suf)
                             in if isfile w cand then Some cand else None)) exe_suffixes) dirs)
        @ dir_candidates w dirs names"
    by (simp add: dir_candidates_def)
  then show ?case using Cons
    by (simp add: first_found_append probe_dirs_spec split: option.splits)
qed

lemma which_executable_in_spec: "which_executable_in w dirs names = resolve_spec w dirs names"
  by (simp add: which_executable_in_def resolve_spec_def first_found_append
      which_first_spec probe_names_spec split: option.splits)

lemma probe_suffixes_None:
  "probe_suffixes w d base sufs = None
   \<longleftrightarrow> (\<forall>suf\<in>set sufs. \<not> isfile w (path_join (os_sep w) d (base @ suf)))"
  by (induction sufs) (auto simp: Let_def)

lemma probe_dirs_unique:
  assumes "\<forall>d'\<in>set ds. d' \<noteq> d \<longrightarrow> \<not> dir_matches w names d'" "base \<in> set names"
  shows "probe_dirs w base ds = (if d \<in> set ds then probe_suffixes w d base exe_suffixes else None)"
  using assms(1)
proof (induction ds)
  case Nil then show ?case by simp
next
  case (Cons x ds)
  then have ih: "probe_dirs w base ds = (if d \<in> set ds then probe_suffixes w d base exe_suffixes else None)"
    by simp
  show ?case
  proof (cases "x = d")
    case True
    then show ?thesis using ih by (cases "probe_suffixes w d base exe_suffixes") auto
  next
    case False
    then have "\<not> dir_matches w names x" using Cons.prems by simp
    then have "probe_suffixes w x base exe_suffixes = None"
      using assms(2) unfolding probe_suffixes_None dir_matches_def by blast
    then show ?thesis using ih False by simp
  qed
qed

lemma probe_names_unique:
  assumes "\<forall>d'\<in>set ds. d' \<noteq> d \<longrightarrow> \<not> dir_matches w names d'" "set names' \<subseteq> set names"
  shows "probe_names w ds names' = (if d \<in> set ds then probe_names w [d] names' else None)"
  using assms(2)
proof (induction names')
  case Nil then show ?case by simp
next
  case (Cons base names')
  then have b: "base \<in> set names" and ih:
    "probe_names w ds names' = (if d \<in> set ds then probe_names w [d] names' else None)" by simp_all
  have 1: "probe_dirs w base ds = (if d \<in> set ds then probe_suffixes w d base exe_suffixes else None)"
    using assms(1) b by (rule probe_dirs_unique)
  have 2: "probe_dirs w base [d] = probe_suffixes w d base exe_suffixes"
    by (cases "probe_suffixes w d base exe_suffixes") simp_all
  show ?case using 1 2 ih by (simp split: option.splits)
qed

lemma probe_names_reorder:
  assumes "set ds = set ds'" "\<exists>!d. d \<in> set ds \<and> dir_matches w names d"
  shows "probe_names w ds names = probe_names w ds' names"
proof -
  obtain d where d: "d \<in> set ds" "\<forall>d'\<in>set ds. d' \<noteq> d \<longrightarrow> \<not> dir_matches w names d'"
    using assms(2) by blast
  have d': "\<forall>d'\<in>set ds'. d' \<noteq> d \<longrightarrow> \<not> dir_matches w names d'" using d(2) assms(1) by simp
  have "probe_names w ds names = (if d \<in> set ds then probe_names w [d] names else None)"
    using d(2) by (rule probe_names_unique) simp
  moreover have "probe_names w ds' names = (if d \<in> set ds' then probe_names w [d] names else None)"
    using d' by (rule probe_names_unique) simp
  ultimately show ?thesis using assms(1) by simp
qed

section \<open>The resolver: first found wins (C6)\<close>

text \<open>
  Claim C6. The resolver returns the first candidate that exists, in this order: the
  search path for each name, and only then each name in each directory of the list with
  each suffix; the program's resolver is this search over its fixed list of install
  directories. When exactly one directory of the list contains a match, a reordered list
  gives the same result.
\<close>

theorem resolver_first_found:
  "which_executable_in w dirs names = resolve_spec w dirs names
   \<and> which_executable w names = resolve_spec w (possible_node_dirs w) names
   \<and> (mset dirs = mset dirs' \<and> (\<exists>!d. d \<in> set dirs \<and> dir_matches w names d)
        \<longrightarrow> which_executable_in w dirs names = which_executable_in w dirs' names)"
proof -
  have 1: "which_executable_in w dirs names = resolve_spec w dirs names" for dirs
    by (rule which_executable_in_spec)
  have 3: "which_executable_in w dirs names = which_executable_in w dirs' names"
    if "mset dirs = mset dirs'" "\<exists>!d. d \<in> set dirs \<and> dir_matches w names d"
  proof -
    have "set dirs = set dirs'" using that(1) by (rule mset_eq_setD)
    then have "probe_names w dirs names = probe_names w dirs' names"
      using that(2) by (rule probe_names_reorder)
    then show ?thesis by (simp add: which_executable_in_def split: option.splits)
  qed
  show ?thesis using 1 3 by (simp add: which_executable_def)
qed


text \<open>
  Witness for C6: \<^verbatim>\<open>surge.cmd\<close> lies in one of two directories and is found whichever
  comes first.
\<close>

theorem resolver_first_found_witness:
  "mset [''/a'', ''/opt/node''] = mset [''/opt/node'', ''/a'']
   \<and> (\<exists>!d. d \<in> set [''/a'', ''/opt/node''] \<and> dir_matches node_world [''surge''] d)
   \<and> which_executable_in node_world [''/a'', ''/opt/node''] [''surge'']
       = which_executable_in node_world [''/opt/node'', ''/a''] [''surge'']
   \<and> which_executable_in node_world [''/a'', ''/opt/node''] [''surge''] = Some ''/opt/node/surge.cmd''"
proof -
  have m: "mset [''/a'', ''/opt/node''] = mset [''/opt/node'', ''/a'']" by simp
  have a: "\<not> dir_matches node_world [''surge''] ''/a''"
    by (simp add: dir_matches_def exe_suffixes_def node_world_def path_join_def)
  have b: "dir_matches node_world [''surge''] ''/opt/node''"
    by (simp add: dir_matches_def exe_suffixes_def node_world_def path_join_def)
  have u: "\<exists>!d. d \<in> set [''/a'', ''/opt/node''] \<and> dir_matches node_world [''surge''] d"
    using a b by auto
  have v: "which_executable_in node_world [''/a'', ''/opt/node''] [''surge''] = Some ''/opt/node/surge.cmd''"
    by (simp add: which_executable_in_def exe_suffixes_def node_world_def path_join_def)
  show ?thesis
    using resolver_first_found[of node_world "[''/a'', ''/opt/node'']" "[''surge'']" "[''/opt/node'', ''/a'']"]
      m u v by blast
qed

section \<open>The dispatcher: nothing resolved (C7)\<close>

text \<open>
  Claim C7. When neither \<^verbatim>\<open>surge\<close> nor \<^verbatim>\<open>npx\<close> is resolved, the dispatch fails, its
  transcript names both strategies, and no subprocess is invoked: the log of invocations
  is what it was.
\<close>

theorem dispatch_nothing_found:
  assumes "\<not> truthy (which_executable w [''surge''])"
    and "\<not> truthy (which_executable w [''npx''])"
  shows "deploy_to_surge w folder log =
           ((False, ''[surge] non trovato; provo npx'' @ nl @
                    ''[npx] non trovato. Installa Node.js (npx) o aggiungi surge alla PATH.''), log)
         \<and> contains ''[surge]'' (snd (fst (deploy_to_surge w folder log)))
         \<and> contains ''[npx]'' (snd (fst (deploy_to_surge w folder log)))
         \<and> snd (deploy_to_surge w folder log) = log"
proof -
  have d: "deploy_to_surge w folder log =
           ((False, ''[surge] non trovato; provo npx'' @ nl @
                    ''[npx] non trovato. Installa Node.js (npx) o aggiungi surge alla PATH.''), log)"
    using assms by (simp add: deploy_to_surge_def direct_attempt_def Let_def)
  have 1: "contains ''[surge]'' (''[surge] non trovato; provo npx'' @ nl @
                    ''[npx] non trovato. Installa Node.js (npx) o aggiungi surge alla PATH.'')"
    unfolding contains_def sublist_def
    by (rule exI[of _ "[]"], rule exI[of _ "'' non trovato; provo npx'' @ nl @
                    ''[npx] non trovato. Installa Node.js (npx) o aggiungi surge alla PATH.''"]) simp
  have 2: "contains ''[npx]'' (''[surge] non trovato; provo npx'' @ nl @
                    ''[npx] non trovato. Installa Node.js (npx) o aggiungi surge alla PATH.'')"
    unfolding contains_def sublist_def
    by (rule exI[of _ "''[surge] non trovato; provo npx'' @ nl"],
        rule exI[of _ "'' non trovato. Installa Node.js (npx) o aggiungi surge alla PATH.''"]) simp
  show ?thesis unfolding d using 1 2 by simp
qed

lemma bare_world_resolves_nothing: "which_executable bare_world names = None"
proof -
  have 1: "which_first bare_world ns = None" for ns
    by (induction ns) (simp_all add: bare_world_def)
  have 2: "possible_node_dirs bare_world = []"
    by (simp add: possible_node_dirs_def bare_world_def)
  have 3: "probe_names bare_world [] ns = None" for ns
    by (induction ns) simp_all
  show ?thesis by (simp add: which_executable_def which_executable_in_def 1 2 3)
qed

text \<open>Witness for C7: the machine on which nothing is installed.\<close>

theorem dispatch_nothing_found_witness:
  "\<not> truthy (which_executable bare_world [''surge''])
   \<and> \<not> truthy (which_executable bare_world [''npx''])
   \<and> fst (fst (deploy_to_surge bare_world ''site'' [])) = False
   \<and> snd (deploy_to_surge bare_world ''site'' []) = []"
proof -
  have a: "\<not> truthy (which_executable bare_world [''surge''])"
    by (simp add: bare_world_resolves_nothing truthy_def)
  have b: "\<not> truthy (which_executable bare_world [''npx''])"
    by (simp add: bare_world_resolves_nothing truthy_def)
  show ?thesis using dispatch_nothing_found[OF a b, of "''site''" "[]"] a b by simp
qed

section \<open>The dispatcher: fallback to the package runner (C2)\<close>

text \<open>
  Claim C2, as amended. When \<^verbatim>\<open>surge\<close> is not resolved, or its deploy invocation exits
  with a code other than 0, and \<^verbatim>\<open>npx\<close> is resolved and its deploy invocation exits with 0,
  the dispatch succeeds and the transcript it returns is the output of the \<^verbatim>\<open>npx\<close> deploy
  invocation alone.
\<close>

theorem dispatch_fallback_success:
  assumes direct:
      "\<not> truthy (which_executable w [''surge''])
       \<or> fst (fst (run_subprocess w [the (which_executable w [''surge'']), folder, SURGE_DOMAIN, ''--yes'']
                   None 240 (snd (surge_login_if_needed w (the (which_executable w [''surge''])) log))))
          \<noteq> 0"
    and npx: "truthy (which_executable w [''npx''])"
    and runner:
      "fst (run_subprocess w [the (which_executable w [''npx'']), ''surge'', folder, SURGE_DOMAIN, ''--yes'']
              None 300
              (npx_login w (the (which_executable w [''npx''])) (snd (direct_attempt w folder log))))
       = (0, out2)"
  shows "fst (deploy_to_surge w folder log) = (True, out2)"
proof -
  have "\<exists>t. fst (direct_attempt w folder log) = Continue t"
    using direct
    by (auto simp: direct_attempt_def Let_def split: prod.splits)
  then obtain t l where d: "direct_attempt w folder log = (Continue t, l)"
    by (cases "direct_attempt w folder log") auto
  show ?thesis
    using npx runner unfolding deploy_to_surge_def d
    by (auto simp: Let_def split: prod.splits)
qed

lemma fallback_world_which:
  "which_executable fallback_world [''surge''] = Some ''/bin/surge''"
  "which_executable fallback_world [''npx''] = Some ''/bin/npx''"
  by (simp_all add: which_executable_def which_executable_in_def fallback_world_def)

lemma fallback_world_run:
  "fst (run_subprocess fallback_world [''/bin/surge'', ''site'', SURGE_DOMAIN, ''--yes''] None 240 lg)
   = (1, ''direct-error'')"
  "fst (run_subprocess fallback_world [''/bin/npx'', ''surge'', ''site'', SURGE_DOMAIN, ''--yes''] None 300 lg)
   = (0, ''published'')"
  by (simp_all add: run_subprocess_def popen_no_window_def fallback_world_def Let_def)

text \<open>
  Witness for C2, and the counterexample to it as stated: on the machine where \<^verbatim>\<open>surge\<close>
  exits with 1 and the output \<^verbatim>\<open>direct-error\<close> and \<^verbatim>\<open>npx surge\<close> exits with 0 and the
  output \<^verbatim>\<open>published\<close>, the dispatch succeeds with the transcript \<^verbatim>\<open>published\<close>, which
  does not contain the output of the direct attempt.
\<close>

theorem dispatch_fallback_success_witness:
  "truthy (which_executable fallback_world [''npx''])
   \<and> fst (fst (run_subprocess fallback_world
                 [the (which_executable fallback_world [''surge'']), ''site'', SURGE_DOMAIN, ''--yes'']
                 None 240
                 (snd (surge_login_if_needed fallback_world
                         (the (which_executable fallback_world [''surge''])) [])))) \<noteq> 0
   \<and> fst (deploy_to_surge fallback_world ''site'' []) = (True, ''published'')"
proof -
  have n: "truthy (which_executable fallback_world [''npx''])"
    by (simp add: fallback_world_which truthy_def)
  have d: "fst (fst (run_subprocess fallback_world
                 [the (which_executable fallback_world [''surge'']), ''site'', SURGE_DOMAIN, ''--yes'']
                 None 240
                 (snd (surge_login_if_needed fallback_world
                         (the (which_executable fallback_world [''surge''])) [])))) \<noteq> 0"
    by (simp add: fallback_world_which fallback_world_run)
  have r: "fst (run_subprocess fallback_world
              [the (which_executable fallback_world [''npx'']), ''surge'', ''site'', SURGE_DOMAIN, ''--yes'']
              None 300
              (npx_login fallback_world (the (which_executable fallback_world [''npx'']))
                 (snd (direct_attempt fallback_world ''site'' []))))
       = (0, ''published'')"
    by (simp add: fallback_world_which fallback_world_run)
  show ?thesis
    using dispatch_fallback_success[of fallback_world "''site''" "[]" "''published''", OF disjI2[OF d] n r] n d
    by simp
qed

theorem dispatch_fallback_counterexample:
  "fst (run_subprocess fallback_world [''/bin/surge'', ''site'', SURGE_DOMAIN, ''--yes''] None 240
          (snd (surge_login_if_needed fallback_world ''/bin/surge'' [])))
     = (1, ''direct-error'')
   \<and> fst (deploy_to_surge fallback_world ''site'' []) = (True, ''published'')
   \<and> \<not> contains ''direct-error'' (snd (fst (deploy_to_surge fallback_world ''site'' [])))"
proof -
  have n: "truthy (which_executable fallback_world [''npx''])"
    by (simp add: fallback_world_which truthy_def)
  have s: "truthy (which_executable fallback_world [''surge''])"
    by (simp add: fallback_world_which truthy_def)
  obtain okl lt l1 where sl:
      "surge_login_if_needed fallback_world ''/bin/surge'' [] = ((okl, lt), l1)"
    by (cases "surge_login_if_needed fallback_world ''/bin/surge'' []") auto
  obtain l where rs:
      "run_subprocess fallback_world [''/bin/surge'', ''site'', SURGE_DOMAIN, ''--yes''] None 240 l1
       = ((1, ''direct-error''), l)"
    using fallback_world_run(1)[of l1]
    by (cases "run_subprocess fallback_world [''/bin/surge'', ''site'', SURGE_DOMAIN, ''--yes''] None 240 l1")
       auto
  have d: "direct_attempt fallback_world ''site'' []
      = (Continue (''[surge] rc='' @ str_of_int 1 @ nl @ ''direct-error''), l)"
    using s by (simp add: direct_attempt_def Let_def fallback_world_which sl rs)
  obtain l3 where rn:
      "run_subprocess fallback_world [''/bin/npx'', ''surge'', ''site'', SURGE_DOMAIN, ''--yes''] None 300
         (npx_login fallback_world ''/bin/npx'' l) = ((0, ''published''), l3)"
    using fallback_world_run(2)[of "npx_login fallback_world ''/bin/npx'' l"]
    by (cases "run_subprocess fallback_world [''/bin/npx'', ''surge'', ''site'', SURGE_DOMAIN, ''--yes''] None 300
         (npx_login fallback_world ''/bin/npx'' l)") auto
  have r: "fst (deploy_to_surge fallback_world ''site'' []) = (True, ''published'')"
    using n unfolding deploy_to_surge_def d
    by (simp add: Let_def fallback_world_which rn)
  have c: "\<not> contains ''direct-error'' ''published''"
    unfolding contains_def using sublist_length_le[of "''direct-error''" "''published''"] by auto
  show ?thesis using fallback_world_run(1) r c by simp
qed

section \<open>Subprocess invocations (C9)\<close>

lemma safely_extends_iff:
  "safely_extends log log' \<longleftrightarrow> (\<exists>new. log' = log @ new \<and> list_all safe_event new)"
proof
  assume h: "safely_extends log log'"
  then have "log' = log @ drop (length log) log'"
    unfolding safely_extends_def by (metis append_take_drop_id)
  then show "\<exists>new. log' = log @ new \<and> list_all safe_event new"
    using h unfolding safely_extends_def by blast
next
  assume "\<exists>new. log' = log @ new \<and> list_all safe_event new"
  then show "safely_extends log log'" by (auto simp: safely_extends_def)
qed

lemma safely_extends_refl: "safely_extends log log"
  by (simp add: safely_extends_iff)

lemma safely_extends_trans:
  "safely_extends a b \<Longrightarrow> safely_extends b c \<Longrightarrow> safely_extends a c"
  unfolding safely_extends_iff by auto

lemma run_subprocess_call:
  "\<not> pc_shell (popen_no_window w cmd
        \<lparr>kw_shell = None, kw_stdin = Some s, kw_stdout = Some PIPE, kw_stderr = Some STDOUT,
         kw_text = True, kw_input = None\<rparr>)"
  "pc_stdout (popen_no_window w cmd
        \<lparr>kw_shell = None, kw_stdin = Some s, kw_stdout = Some PIPE, kw_stderr = Some STDOUT,
         kw_text = True, kw_input = None\<rparr>) = PIPE"
  "pc_stderr (popen_no_window w cmd
        \<lparr>kw_shell = None, kw_stdin = Some s, kw_stdout = Some PIPE, kw_stderr = Some STDOUT,
         kw_text = True, kw_input = None\<rparr>) = STDOUT"
  "pc_cmd (popen_no_window w cmd
        \<lparr>kw_shell = None, kw_stdin = Some s, kw_stdout = Some PIPE, kw_stderr = Some STDOUT,
         kw_text = True, kw_input = None\<rparr>) = cmd"
  by (simp_all add: popen_no_window_def)

lemma run_subprocess_extends:
  assumes "run_subprocess w cmd inp t log = (r, log')" "0 < t" "t \<le> 300"
  shows "safely_extends log log'"
  using assms unfolding safely_extends_iff run_subprocess_def Let_def
  by (auto simp: run_subprocess_call split: run_outcome.splits)

lemma run_subprocess_extends_snd:
  assumes "0 < t" "t \<le> 300"
  shows "safely_extends log (snd (run_subprocess w cmd inp t log))"
  using run_subprocess_extends[OF _ assms] by (cases "run_subprocess w cmd inp t log") auto

lemma surge_login_extends:
  "safely_extends log (snd (surge_login_if_needed w c log))"
proof -
  obtain r1 l1 where 1: "run_subprocess w [c, ''whoami''] None 30 log = (r1, l1)"
    by (cases "run_subprocess w [c, ''whoami''] None 30 log") auto
  obtain r2 l2 where 2: "run_subprocess w [c, ''login''] (Some login_input) 60 l1 = (r2, l2)"
    by (cases "run_subprocess w [c, ''login''] (Some login_input) 60 l1") auto
  obtain r3 l3 where 3: "run_subprocess w [c, ''whoami''] None 30 l2 = (r3, l3)"
    by (cases "run_subprocess w [c, ''whoami''] None 30 l2") auto
  have e1: "safely_extends log l1" using 1 by (rule run_subprocess_extends) simp_all
  have e2: "safely_extends l1 l2" using 2 by (rule run_subprocess_extends) simp_all
  have e3: "safely_extends l2 l3" using 3 by (rule run_subprocess_extends) simp_all
  have e13: "safely_extends log l3" using e1 e2 e3 safely_extends_trans by blast
  show ?thesis
    using e1 e13 by (cases r1; cases r2; cases r3) (simp add: surge_login_if_needed_def 1 2 3)
qed

lemma npx_login_extends: "safely_extends log (npx_login w c log)"
proof -
  obtain r1 l1 where 1: "run_subprocess w [c, ''surge'', ''whoami''] None 60 log = (r1, l1)"
    by (cases "run_subprocess w [c, ''surge'', ''whoami''] None 60 log") auto
  have e1: "safely_extends log l1" using 1 by (rule run_subprocess_extends) simp_all
  have e2: "safely_extends l1 (snd (run_subprocess w [c, ''surge'', ''login''] (Some login_input) 120 l1))"
    by (rule run_subprocess_extends_snd) simp_all
  have e12: "safely_extends log (snd (run_subprocess w [c, ''surge'', ''login''] (Some login_input) 120 l1))"
    using e1 e2 by (rule safely_extends_trans)
  show ?thesis using e1 e12 by (cases r1) (simp add: npx_login_def 1)
qed

lemma direct_attempt_extends: "safely_extends log (snd (direct_attempt w folder log))"
proof (cases "truthy (which_executable w [''surge''])")
  case False
  then show ?thesis by (simp add: direct_attempt_def safely_extends_refl)
next
  case True
  define c where "c = the (which_executable w [''surge''])"
  obtain r1 l1 where 1: "surge_login_if_needed w c log = (r1, l1)"
    by (cases "surge_login_if_needed w c log") auto
  obtain r2 l2 where 2: "run_subprocess w [c, folder, SURGE_DOMAIN, ''--yes''] None 240 l1 = (r2, l2)"
    by (cases "run_subprocess w [c, folder, SURGE_DOMAIN, ''--yes''] None 240 l1") auto
  have e1: "safely_extends log l1" using surge_login_extends[of log w c] 1 by simp
  have e2: "safely_extends l1 l2" using 2 by (rule run_subprocess_extends) simp_all
  have "safely_extends log l2" using e1 e2 by (rule safely_extends_trans)
  then show ?thesis
    using True by (cases r1; cases r2) (simp add: direct_attempt_def Let_def c_def[symmetric] 1 2)
qed

lemma deploy_to_surge_extends: "safely_extends log (snd (deploy_to_surge w folder log))"
proof -
  obtain a l1 where d: "direct_attempt w folder log = (a, l1)"
    by (cases "direct_attempt w folder log") auto
  have e1: "safely_extends log l1" using direct_attempt_extends[of log w folder] d by simp
  define c where "c = the (which_executable w [''npx''])"
  obtain r2 l2 where 2:
    "run_subprocess w [c, ''surge'', folder, SURGE_DOMAIN, ''--yes''] None 300 (npx_login w c l1) = (r2, l2)"
    by (cases "run_subprocess w [c, ''surge'', folder, SURGE_DOMAIN, ''--yes''] None 300 (npx_login w c l1)") auto
  have e2: "safely_extends l1 (npx_login w c l1)" by (rule npx_login_extends)
  have e3: "safely_extends (npx_login w c l1) l2" using 2 by (rule run_subprocess_extends) simp_all
  have e: "safely_extends log l2" using e1 e2 e3 safely_extends_trans by blast
  show ?thesis
    using e1 e by (cases a; cases r2)
      (simp_all add: deploy_to_surge_def d Let_def c_def[symmetric] 2)
qed

text \<open>
  Claim C9. An invocation through \<^verbatim>\<open>_run_subprocess\<close> is logged once, runs the command
  without a shell and with standard output and standard error captured together; whatever
  happens it returns a code and a text: the child's own on exit, and the code 1 with a
  message when \<^verbatim>\<open>communicate\<close> times out (the child is then killed), when the
  executable is missing, or when anything else is raised. Every invocation a dispatch
  adds to the log is of this kind and has a timeout of at most 300 seconds.
\<close>

theorem run_subprocess_safe:
  "(\<exists>rc out call.
      run_subprocess w cmd inp t log =
        ((rc, out),
         log @ Invoke call inp t # (if run w log call inp t = TimeoutExpired then [Kill call] else []))
      \<and> pc_cmd call = cmd \<and> \<not> pc_shell call \<and> pc_stdout call = PIPE \<and> pc_stderr call = STDOUT
      \<and> (\<forall>c txt. run w log call inp t = Exited c txt \<longrightarrow> rc = c \<and> out = txt)
      \<and> (run w log call inp t = TimeoutExpired \<longrightarrow> rc = 1 \<and> out = ''Timeout esecuzione comando.'')
      \<and> (run w log call inp t = FileNotFoundError \<longrightarrow> rc = 1 \<and> out = ''Comando non trovato.'')
      \<and> (\<forall>e. run w log call inp t = OtherException e
            \<longrightarrow> rc = 1 \<and> out = ''Errore esecuzione comando: '' @ e))
   \<and> safely_extends log (snd (deploy_to_surge w folder log))"
proof -
  define call where "call = popen_no_window w cmd
        \<lparr>kw_shell = None, kw_stdin = Some (if inp \<noteq> None then PIPE else PyNone),
         kw_stdout = Some PIPE, kw_stderr = Some STDOUT, kw_text = True, kw_input = None\<rparr>"
  have c: "pc_cmd call = cmd" "\<not> pc_shell call" "pc_stdout call = PIPE" "pc_stderr call = STDOUT"
    unfolding call_def by (simp_all add: run_subprocess_call)
  have r: "run_subprocess w cmd inp t log =
     (case run w log call inp t of
        Exited rc out \<Rightarrow> ((rc, out), log @ [Invoke call inp t])
      | TimeoutExpired \<Rightarrow> ((1, ''Timeout esecuzione comando.''), log @ [Invoke call inp t, Kill call])
      | FileNotFoundError \<Rightarrow> ((1, ''Comando non trovato.''), log @ [Invoke call inp t])
      | OtherException e \<Rightarrow> ((1, ''Errore esecuzione comando: '' @ e), log @ [Invoke call inp t]))"
    unfolding run_subprocess_def Let_def call_def[symmetric]
    by (simp split: run_outcome.splits)
  have "\<exists>rc out.
      run_subprocess w cmd inp t log =
        ((rc, out),
         log @ Invoke call inp t # (if run w log call inp t = TimeoutExpired then [Kill call] else []))
      \<and> (\<forall>c txt. run w log call inp t = Exited c txt \<longrightarrow> rc = c \<and> out = txt)
      \<and> (run w log call inp t = TimeoutExpired \<longrightarrow> rc = 1 \<and> out = ''Timeout esecuzione comando.'')
      \<and> (run w log call inp t = FileNotFoundError \<longrightarrow> rc = 1 \<and> out = ''Comando non trovato.'')
      \<and> (\<forall>e. run w log call inp t = OtherException e
            \<longrightarrow> rc = 1 \<and> out = ''Errore esecuzione comando: '' @ e)"
    unfolding r by (cases "run w log call inp t") simp_all
  then show ?thesis using c deploy_to_surge_extends[of log w folder] by blast
qed

text \<open>
  Witness for C9: a command that times out on the machine where nothing answers in time.
\<close>

theorem run_subprocess_safe_witness:
  "run (bare_world\<lparr>run := (\<lambda>log call inp t. TimeoutExpired)\<rparr>) [] 
       (popen_no_window bare_world [''surge'', ''whoami'']
          \<lparr>kw_shell = None, kw_stdin = Some PyNone, kw_stdout = Some PIPE, kw_stderr = Some STDOUT,
           kw_text = True, kw_input = None\<rparr>) None 30 = TimeoutExpired
   \<and> fst (run_subprocess (bare_world\<lparr>run := (\<lambda>log call inp t. TimeoutExpired)\<rparr>)
            [''surge'', ''whoami''] None 30 [])
       = (1, ''Timeout esecuzione comando.'')
   \<and> safely_extends [] (snd (deploy_to_surge fallback_world ''site'' []))"
proof -
  let ?w = "bare_world\<lparr>run := (\<lambda>log call inp t. TimeoutExpired)\<rparr>"
  have t: "run ?w lg c i n = TimeoutExpired" for lg c i n by simp
  obtain rc out call where h:
    "run_subprocess ?w [''surge'', ''whoami''] None 30 [] =
        ((rc, out), [] @ Invoke call None 30 # (if run ?w [] call None 30 = TimeoutExpired then [Kill call] else []))"
    "run ?w [] call None 30 = TimeoutExpired \<longrightarrow> rc = 1 \<and> out = ''Timeout esecuzione comando.''"
    using run_subprocess_safe[of ?w "[''surge'', ''whoami'']" None 30 "[]"] by blast
  have "fst (run_subprocess ?w [''surge'', ''whoami''] None 30 []) = (1, ''Timeout esecuzione comando.'')"
    using h t by simp
  moreover have "safely_extends [] (snd (deploy_to_surge fallback_world ''site'' []))"
    using run_subprocess_safe[of fallback_world "[]" None 30 "[]" "''site''"] by blast
  ultimately show ?thesis using t by simp
qed

section \<open>No data, no publish (C8)\<close>

lemma makedirs_files: "makedirs m p d = Inr d0 \<Longrightarrow> d_files d0 = d_files d"
  by (auto simp: makedirs_def split: if_splits)

lemma makedirs_exists: "makedirs m p d = Inr d0 \<Longrightarrow> path_exists d0 p"
  by (auto simp: makedirs_def path_exists_def split: if_splits)

lemma makedirs_error: "makedirs m p d = Inl e \<Longrightarrow> e = OSError"
  by (auto simp: makedirs_def split: if_splits)

lemma aggregate_empty: "aggregate [] = Inl (RuntimeError ''Nessun record presente nel database.'')"
  by (simp add: aggregate_def fetch_last_record_def)

lemma DASH_DIR_nonempty: "DASH_DIR m \<noteq> []"
  by (simp add: DASH_DIR_def path_join_def)

lemma generate_empty:
  "\<exists>e d'. generate_dashboard_html L m n1 n2 out_dir off [] d = (Inl e, d')
           \<and> d_files d' = d_files d
           \<and> (out_dir \<noteq> [] \<and> path_exists d out_dir
                \<longrightarrow> e = RuntimeError ''Nessun record presente nel database.'' \<and> d' = d)"
proof (cases "out_dir = []")
  case True then show ?thesis by (simp add: generate_dashboard_html_def)
next
  case False
  show ?thesis
  proof (cases "path_exists d out_dir")
    case True
    then show ?thesis using False by (simp add: generate_dashboard_html_def aggregate_empty)
  next
    case ne: False
    show ?thesis
    proof (cases "makedirs m out_dir d")
      case (Inl e)
      then show ?thesis using False ne by (simp add: generate_dashboard_html_def)
    next
      case (Inr d0)
      then show ?thesis using False ne makedirs_files[OF Inr]
        by (simp add: generate_dashboard_html_def aggregate_empty)
    qed
  qed
qed

lemma fixed_dir_empty:
  "\<exists>e d'. generate_dashboard_to_fixed_dir L m n1 n2 off [] d = (Inl e, d')
           \<and> d_files d' = d_files d
           \<and> (makedirs m (DASH_DIR m) d \<noteq> Inl OSError
                \<longrightarrow> e = RuntimeError ''Nessun record presente nel database.'')"
proof (cases "makedirs m (DASH_DIR m) d")
  case (Inl e)
  then show ?thesis using makedirs_error[OF Inl]
    by (simp add: generate_dashboard_to_fixed_dir_def)
next
  case (Inr d0)
  obtain e d' where g: "generate_dashboard_html L m n1 n2 (DASH_DIR m) off [] d0 = (Inl e, d')"
    "d_files d' = d_files d0"
    "DASH_DIR m \<noteq> [] \<and> path_exists d0 (DASH_DIR m)
       \<longrightarrow> e = RuntimeError ''Nessun record presente nel database.'' \<and> d' = d0"
    using generate_empty[of L m n1 n2 "DASH_DIR m" off d0] by blast
  have "e = RuntimeError ''Nessun record presente nel database.''"
    using g(3) DASH_DIR_nonempty makedirs_exists[OF Inr] by blast
  then show ?thesis using Inr g(1,2) makedirs_files[OF Inr]
    by (simp add: generate_dashboard_to_fixed_dir_def)
qed

text \<open>
  Claim C8. On a table without rows the aggregation raises the error "no record in the
  database" and there is no snapshot; generating the dashboard fails, the content of
  every file is what it was, and the publish step ends with the error without invoking
  any subprocess.
\<close>

theorem no_data_no_publish:
  "aggregate ([] :: 'f store) = Inl (RuntimeError ''Nessun record presente nel database.'')
   \<and> (\<exists>e d'. generate_dashboard_html (L :: 'f pylib) m n1 n2 out_dir off [] d = (Inl e, d')
              \<and> d_files d' = d_files d)
   \<and> (\<exists>e d'. publish L m w n1 n2 off [] d log = (Inl e, d', log)
              \<and> d_files d' = d_files d
              \<and> (makedirs m (DASH_DIR m) d \<noteq> Inl OSError
                   \<longrightarrow> e = RuntimeError ''Nessun record presente nel database.''))"
proof -
  obtain e d' where f: "generate_dashboard_to_fixed_dir L m n1 n2 off [] d = (Inl e, d')"
    "d_files d' = d_files d"
    "makedirs m (DASH_DIR m) d \<noteq> Inl OSError
       \<longrightarrow> e = RuntimeError ''Nessun record presente nel database.''"
    using fixed_dir_empty[of L m n1 n2 off d] by blast
  have p: "publish L m w n1 n2 off [] d log = (Inl e, d', log)"
    by (simp add: publish_def f(1))
  show ?thesis using aggregate_empty generate_empty[of L m n1 n2 out_dir off d] p f(2,3) by blast
qed

text \<open>Witness for C8: the empty table on an empty disk where everything can be written.\<close>

theorem no_data_no_publish_witness:
  "makedirs plain_io (DASH_DIR plain_io) empty_disk \<noteq> Inl OSError
   \<and> (\<exists>d'. publish plain_lib plain_io bare_world scenario_time scenario_time False [] empty_disk []
             = (Inl (RuntimeError ''Nessun record presente nel database.''), d', [])
           \<and> d_files d' = d_files empty_disk)"
proof -
  have m: "makedirs plain_io (DASH_DIR plain_io) empty_disk \<noteq> Inl OSError"
    by (simp add: makedirs_def plain_io_def empty_disk_def)
  show ?thesis
    using no_data_no_publish[of plain_lib plain_io scenario_time scenario_time "[]" False empty_disk
        bare_world "[]"] m by blast
qed

section \<open>Commit (C5)\<close>

lemma path_join_inj: "path_join sep a x = path_join sep a y \<longleftrightarrow> x = y"
  by (simp add: path_join_def)

lemma ts_name: "strftime now ''%Y%m%d_%H%M%S'' =
   pad4 (dt_year now) @ pad2 (dt_month now) @ pad2 (dt_day now) @ CHR ''_'' #
   pad2 (dt_hour now) @ pad2 (dt_minute now) @ pad2 (dt_second now)"
  by (simp add: directive_def)

lemma not_digit_l: "\<not> is_digit (CHR ''l'')"
  by (simp add: is_digit_iff)

lemma paths_distinct:
  "path_latest m out_dir \<noteq> path_ts m out_dir now"
  "path_index m out_dir \<noteq> path_latest m out_dir"
  "path_index m out_dir \<noteq> path_ts m out_dir now"
proof -
  have d: "is_digit (digit_char (dt_year now div 1000 mod 10))" by simp
  have "''latest.html'' \<noteq> strftime now ''%Y%m%d_%H%M%S'' @ ''.html''"
    unfolding ts_name pad4_def using d not_digit_l by auto
  then show "path_latest m out_dir \<noteq> path_ts m out_dir now"
    by (simp add: path_latest_def path_ts_def path_join_inj)
  show "path_index m out_dir \<noteq> path_latest m out_dir"
    by (simp add: path_latest_def path_index_def path_join_inj)
  show "path_index m out_dir \<noteq> path_ts m out_dir now"
    by (simp add: path_ts_def path_index_def path_join_inj)
qed

lemma universal_newlines_Cons:
  "c \<noteq> CHR 0x0D \<Longrightarrow> universal_newlines (c # s) = c # universal_newlines s"
  by (cases s) simp_all

lemma universal_newlines_id:
  "CHR 0x0D \<notin> set s \<Longrightarrow> universal_newlines s = s"
proof (induction s)
  case Nil
  show ?case by simp
next
  case (Cons c s)
  then have "c \<noteq> CHR 0x0D" "universal_newlines s = s" by auto
  then show ?case by (simp add: universal_newlines_Cons)
qed

lemma translate_newlines_LF: "translate_newlines [CHR 0x0A] s = s"
  by (induction s) (simp_all add: translate_newlines_def)

lemma translate_newlines_Cons:
  "translate_newlines nl' (c # s) = (if c = CHR 0x0A then nl' else [c]) @ translate_newlines nl' s"
  by (simp add: translate_newlines_def)

lemma read_back:
  assumes "CHR 0x0D \<notin> set s"
  shows "universal_newlines (translate_newlines (linesep m) s) = s"
proof (cases "io_nt m")
  case False
  then show ?thesis using assms by (simp add: linesep_def translate_newlines_LF universal_newlines_id)
next
  case True
  have "universal_newlines (translate_newlines [CHR 0x0D, CHR 0x0A] s) = s" using assms
  proof (induction s)
    case Nil
    show ?case by (simp add: translate_newlines_def)
  next
    case (Cons c s)
    then have ih: "universal_newlines (translate_newlines [CHR 0x0D, CHR 0x0A] s) = s"
      and c: "c \<noteq> CHR 0x0D" by auto
    show ?case
    proof (cases "c = CHR 0x0A")
      case True
      then show ?thesis by (simp add: translate_newlines_Cons ih)
    next
      case False
      then show ?thesis using c by (simp add: translate_newlines_Cons universal_newlines_Cons ih)
    qed
  qed
  then show ?thesis using True by (simp add: linesep_def)
qed

lemma can_open_w_dirs: "d_dirs d' = d_dirs d \<Longrightarrow> can_open_w m d' p = can_open_w m d p"
  by (simp add: can_open_w_def)

lemma open_w_files:
  "open_w m p d = Inr d1 \<Longrightarrow>
     d_files d1 = (d_files d)(p \<mapsto> []) \<and> d_dirs d1 = d_dirs d \<and> can_open_w m d p"
  by (auto simp: open_w_def split: if_splits)

lemma write_text_files:
  "write_text m p c d = Inr d1 \<Longrightarrow>
     d_files d1 = (d_files d)(p \<mapsto> translate_newlines (linesep m) c) \<and> d_dirs d1 = d_dirs d"
  by (auto simp: write_text_def open_w_def put_text_def split: if_splits)

lemma write_dashboard_files:
  assumes "write_dashboard m out_dir now html d = (Inr (lp, ts), d1)"
  shows "lp = path_latest m out_dir \<and> ts = path_ts m out_dir now
         \<and> d_files d1 = (d_files d)(path_latest m out_dir \<mapsto> translate_newlines (linesep m) html,
                                     path_ts m out_dir now \<mapsto> translate_newlines (linesep m) html)
         \<and> d_dirs d1 = d_dirs d"
proof -
  obtain da where a: "write_text m (path_latest m out_dir) html d = Inr da"
    using assms by (cases "write_text m (path_latest m out_dir) html d")
      (simp_all add: write_dashboard_def)
  obtain db where b: "write_text m (path_ts m out_dir now) html da = Inr db"
    using assms a by (cases "write_text m (path_ts m out_dir now) html da")
      (simp_all add: write_dashboard_def)
  have "d1 = db" "lp = path_latest m out_dir" "ts = path_ts m out_dir now"
    using assms a b by (simp_all add: write_dashboard_def)
  then show ?thesis using write_text_files[OF a] write_text_files[OF b] by simp
qed

lemma copy2_files:
  assumes "copy2 m src dst d = (ok, d')"
  shows "d_dirs d' = d_dirs d
         \<and> (\<forall>p. p \<noteq> copy_target m src dst d \<longrightarrow> d_files d' p = d_files d p)
         \<and> (ok \<longrightarrow> d_files d' (copy_target m src dst d) = d_files d src
                  \<and> copy2_outcome m src dst = Copied)
         \<and> (\<not> ok \<and> d_files d src \<noteq> None \<and> copy_target m src dst d \<noteq> src
              \<and> can_open_w m d (copy_target m src dst d)
            \<longrightarrow> copy2_outcome m src dst \<noteq> Copied)"
  using assms
  by (auto simp: copy2_def Let_def split: copy_outcome.splits option.splits if_splits)

lemma mirror_index_files:
  assumes mi: "mirror_index m out_dir lp d1 = (Inr u, d2)"
    and c: "d_files d1 lp = Some c"
    and ne: "lp \<noteq> path_index m out_dir"
    and nd: "path_index m out_dir \<notin> d_dirs d1"
  shows "d_dirs d2 = d_dirs d1
       \<and> d_files d2 = (d_files d1)(path_index m out_dir \<mapsto>
            (if copy2_outcome m lp (path_index m out_dir) = Copied then c
             else translate_newlines (linesep m) (universal_newlines c)))"
proof -
  let ?i = "path_index m out_dir"
  have tg: "copy_target m lp ?i d1 = ?i" using nd by (simp add: copy_target_def)
  obtain ok d' where cp: "copy2 m lp ?i d1 = (ok, d')"
    by (cases "copy2 m lp ?i d1") auto
  note f = copy2_files[OF cp, unfolded tg]
  have dd: "d_dirs d' = d_dirs d1" using f by simp
  have l: "d_files d' lp = Some c" using f c ne by simp
  show ?thesis
  proof (cases ok)
    case True
    then have "d2 = d'" using mi cp by (simp add: mirror_index_def)
    moreover have "d_files d' = (d_files d1)(?i \<mapsto> c)"
      using f True c by (intro ext) simp
    moreover have "copy2_outcome m lp ?i = Copied" using f True by simp
    ultimately show ?thesis using dd by simp
  next
    case False
    obtain d'' where ow: "open_w m ?i d' = Inr d''"
      using mi cp False by (cases "open_w m ?i d'") (simp_all add: mirror_index_def)
    note g = open_w_files[OF ow]
    have rd: "read_text d'' lp = Inr (universal_newlines c)"
      using g l ne by (simp add: read_text_def)
    have d2: "d2 = put_text m ?i (universal_newlines c) d''"
      using mi cp False ow rd by (simp add: mirror_index_def)
    have w: "can_open_w m d1 ?i" using g can_open_w_dirs[OF dd] by simp
    have nc: "copy2_outcome m lp ?i \<noteq> Copied"
      using f False c ne w by auto
    have "d_files d2 = (d_files d1)(?i \<mapsto> translate_newlines (linesep m) (universal_newlines c))"
      unfolding d2 using g f by (intro ext) (simp add: put_text_def)
    moreover have "d_dirs d2 = d_dirs d1" unfolding d2 using g dd by (simp add: put_text_def)
    ultimately show ?thesis using nc by simp
  qed
qed

lemma commit_files:
  assumes cm: "commit m out_dir now html d = (Inr (lp, ts), d2)"
    and nd: "path_index m out_dir \<notin> d_dirs d"
  shows "lp = path_latest m out_dir \<and> ts = path_ts m out_dir now \<and> d_dirs d2 = d_dirs d
       \<and> d_files d2 =
           (d_files d)(path_latest m out_dir \<mapsto> translate_newlines (linesep m) html,
                       path_ts m out_dir now \<mapsto> translate_newlines (linesep m) html,
                       path_index m out_dir \<mapsto>
                         (if copy2_outcome m (path_latest m out_dir) (path_index m out_dir) = Copied
                          then translate_newlines (linesep m) html
                          else translate_newlines (linesep m)
                                 (universal_newlines (translate_newlines (linesep m) html))))"
proof -
  obtain r d1 where w: "write_dashboard m out_dir now html d = (r, d1)"
    by (cases "write_dashboard m out_dir now html d") auto
  obtain lp' ts' where r: "r = Inr (lp', ts')"
    using cm w by (cases r) (auto simp: commit_def)
  note wf = write_dashboard_files[OF w[unfolded r]]
  obtain q d3 where mi: "mirror_index m out_dir lp' d1 = (q, d3)"
    by (cases "mirror_index m out_dir lp' d1") auto
  have q: "q = Inr ()" "d3 = d2" "lp' = lp" "ts' = ts"
    using cm w r mi by (cases q; simp add: commit_def)+
  have c: "d_files d1 lp' = Some (translate_newlines (linesep m) html)"
    using wf paths_distinct(1)[of m out_dir now] by simp
  have ne: "lp' \<noteq> path_index m out_dir" using wf paths_distinct(2)[of m out_dir] by simp
  have nd1: "path_index m out_dir \<notin> d_dirs d1" using wf nd by simp
  note mf = mirror_index_files[OF mi[unfolded q(1)] c ne nd1]
  show ?thesis using mf wf q by simp
qed

text \<open>
  A document without carriage returns: after a commit the stable file, the archival copy
  and the entry point hold the same bytes, whether the entry point was copied or written
  from what was read.
\<close>

lemma commit_same_bytes:
  assumes cm: "commit m out_dir now html d = (Inr (lp, ts), d2)"
    and nd: "path_index m out_dir \<notin> d_dirs d"
    and cr: "CHR 0x0D \<notin> set html"
  shows "d_files d2 (path_latest m out_dir) = Some (translate_newlines (linesep m) html)
       \<and> d_files d2 (path_index m out_dir) = Some (translate_newlines (linesep m) html)
       \<and> d_files d2 (path_ts m out_dir now) = Some (translate_newlines (linesep m) html)"
proof -
  note f = commit_files[OF cm nd]
  have fs: "d_files d2 =
           (d_files d)(path_latest m out_dir \<mapsto> translate_newlines (linesep m) html,
                       path_ts m out_dir now \<mapsto> translate_newlines (linesep m) html,
                       path_index m out_dir \<mapsto> translate_newlines (linesep m) html)"
    using f by (simp add: read_back[OF cr])
  show ?thesis unfolding fs
    using paths_distinct(1)[of m out_dir now] paths_distinct(2)[of m out_dir]
      paths_distinct(3)[of m out_dir now] by simp
qed

lemma path_ts_name:
  "path_ts m out_dir now =
     path_join (io_sep m) out_dir
       (''dashboard_'' @ pad4 (dt_year now) @ pad2 (dt_month now) @ pad2 (dt_day now) @ ''_'' @
        pad2 (dt_hour now) @ pad2 (dt_minute now) @ pad2 (dt_second now) @ ''.html'')"
  by (simp add: path_ts_def directive_def)

lemma path_ts_inj:
  assumes "valid_datetime t1" "valid_datetime t2"
  shows "path_ts m out_dir t1 = path_ts m out_dir t2 \<longleftrightarrow> t1 = t2"
proof
  assume "path_ts m out_dir t1 = path_ts m out_dir t2"
  then have e: "pad4 (dt_year t1) = pad4 (dt_year t2)" "pad2 (dt_month t1) = pad2 (dt_month t2)"
    "pad2 (dt_day t1) = pad2 (dt_day t2)" "pad2 (dt_hour t1) = pad2 (dt_hour t2)"
    "pad2 (dt_minute t1) = pad2 (dt_minute t2)" "pad2 (dt_second t1) = pad2 (dt_second t2)"
    by (simp_all add: path_ts_name path_join_inj)
  note b1 = valid_bounds[OF assms(1)] and b2 = valid_bounds[OF assms(2)]
  have "dt_year t1 = dt_year t2" using e(1) pad4_inj[OF b1(1) b2(1)] by simp
  moreover have "dt_month t1 = dt_month t2" using e(2) pad2_inj[OF b1(2) b2(2)] by simp
  moreover have "dt_day t1 = dt_day t2" using e(3) pad2_inj[OF b1(3) b2(3)] by simp
  moreover have "dt_hour t1 = dt_hour t2" using e(4) pad2_inj[OF b1(4) b2(4)] by simp
  moreover have "dt_minute t1 = dt_minute t2" using e(5) pad2_inj[OF b1(5) b2(5)] by simp
  moreover have "dt_second t1 = dt_second t2" using e(6) pad2_inj[OF b1(6) b2(6)] by simp
  ultimately show "t1 = t2" by (intro datetime.equality) simp_all
next
  assume "t1 = t2" then show "path_ts m out_dir t1 = path_ts m out_dir t2" by simp
qed

lemma scenario_paths:
  "path_latest plain_io ''/app/dashboardmri'' = ''/app/dashboardmri/dashboard_latest.html''"
  "path_index plain_io ''/app/dashboardmri'' = ''/app/dashboardmri/index.html''"
  "path_ts plain_io ''/app/dashboardmri'' scenario_time
     = ''/app/dashboardmri/dashboard_20240110_080000.html''"
  by (simp_all add: path_latest_def path_index_def path_ts_name path_join_def plain_io_def
      scenario_time_def pad2_def pad4_def digit_char_def char_of_eq_iff)

lemma write_text_ok:
  "can_open_w m d p
   \<Longrightarrow> write_text m p c d
       = Inr (d\<lparr>d_files := (d_files d)(p \<mapsto> translate_newlines (linesep m) c)\<rparr>)"
  by (simp add: write_text_def open_w_def put_text_def)

lemma commit_succeeds:
  assumes w: "can_open_w m d (path_latest m out_dir)" "can_open_w m d (path_ts m out_dir now)"
      "can_open_w m d (path_index m out_dir)"
  shows "\<exists>d2. commit m out_dir now html d
               = (Inr (path_latest m out_dir, path_ts m out_dir now), d2)"
proof -
  let ?l = "path_latest m out_dir" and ?i = "path_index m out_dir"
  let ?w = "translate_newlines (linesep m) html"
  define da where "da = d\<lparr>d_files := (d_files d)(?l \<mapsto> ?w)\<rparr>"
  define db where "db = da\<lparr>d_files := (d_files da)(path_ts m out_dir now \<mapsto> ?w)\<rparr>"
  have nd: "path_index m out_dir \<notin> d_dirs d" using w(3) by (simp add: can_open_w_def)
  have a: "write_text m ?l html d = Inr da"
    unfolding da_def using w(1) by (rule write_text_ok)
  have dda: "d_dirs da = d_dirs d" by (simp add: da_def)
  have b: "write_text m (path_ts m out_dir now) html da = Inr db"
    unfolding db_def using w(2) can_open_w_dirs[OF dda] by (intro write_text_ok) simp
  have ddb: "d_dirs db = d_dirs d" by (simp add: db_def da_def)
  have fl: "d_files db ?l = Some ?w"
    using paths_distinct(1)[of m out_dir now] by (simp add: db_def da_def)
  have wd: "write_dashboard m out_dir now html d = (Inr (?l, path_ts m out_dir now), db)"
    by (simp add: write_dashboard_def a b)
  have tg: "copy_target m ?l ?i db = ?i" using nd ddb by (simp add: copy_target_def)
  obtain ok d' where cp: "copy2 m ?l ?i db = (ok, d')"
    by (cases "copy2 m ?l ?i db") auto
  note f = copy2_files[OF cp, unfolded tg]
  have l: "d_files d' ?l = Some ?w"
    using f fl paths_distinct(2)[of m out_dir] by simp
  have "\<exists>d2. mirror_index m out_dir ?l db = (Inr (), d2)"
  proof (cases ok)
    case True
    then show ?thesis using cp by (simp add: mirror_index_def)
  next
    case False
    have "d_dirs d' = d_dirs d" using f ddb by simp
    then have ow: "open_w m ?i d' = Inr (d'\<lparr>d_files := (d_files d')(?i \<mapsto> [])\<rparr>)"
      using w(3) can_open_w_dirs[of d' d m ?i] by (simp add: open_w_def)
    have rd: "read_text (d'\<lparr>d_files := (d_files d')(?i \<mapsto> [])\<rparr>) ?l = Inr (universal_newlines ?w)"
      using l paths_distinct(2)[of m out_dir] by (simp add: read_text_def)
    show ?thesis using cp False ow rd by (simp add: mirror_index_def)
  qed
  then show ?thesis by (auto simp: commit_def wd)
qed

lemma cr_read_back: "universal_newlines cr_document = lf_document"
  by (simp add: cr_document_def lf_document_def)

lemma plain_linesep: "linesep plain_io = [CHR 0x0A]" "linesep copy_io = [CHR 0x0A]"
  by (simp_all add: linesep_def plain_io_def copy_io_def)

lemma copy_io_paths:
  "path_latest copy_io out_dir = path_latest plain_io out_dir"
  "path_index copy_io out_dir = path_index plain_io out_dir"
  "path_ts copy_io out_dir now = path_ts plain_io out_dir now"
  by (simp_all add: path_latest_def path_index_def path_ts_def copy_io_def)

text \<open>
  What \<^verbatim>\<open>App._generate_dashboard_to_fixed_dir\<close> does to the disk once the page is rendered
  is the commit of that page.
\<close>

lemma generate_is_commit:
  assumes mk: "makedirs m (DASH_DIR m) d = Inr d0"
    and ag: "aggregate db = Inr snap"
    and lp: "dashboard_loop L (readings snap) empty_chart = Inr cd"
    and ct: "choose_chart_tag m (DASH_DIR m) off d0 = (tag, d1)"
  shows "generate_dashboard_to_fixed_dir L m n1 n2 off db d
         = commit m (DASH_DIR m) n2 (render_page L n1 tag (latest snap) cd) d1"
proof -
  have ex: "path_exists d0 (DASH_DIR m)" using mk by (rule makedirs_exists)
  have g: "generate_dashboard_html L m n1 n2 (DASH_DIR m) off db d0
           = write_dashboard m (DASH_DIR m) n2 (render_page L n1 tag (latest snap) cd) d1"
    using ex DASH_DIR_nonempty[of m] by (simp add: generate_dashboard_html_def ag lp ct)
  show ?thesis
    by (simp add: generate_dashboard_to_fixed_dir_def mk g commit_def)
qed

text \<open>
  Two commits of a document without carriage returns, on a disk where the entry point is
  not a directory: the stable file and the entry point hold the same bytes after each of
  them, the archival copies hold them too, and the names of the archival copies carry the
  time of each commit to the second.
\<close>

lemma commit_twice:
  assumes c1: "commit m out_dir t1 html d = (Inr (lp1, ts1), d1)"
    and c2: "commit m out_dir t2 html d1 = (Inr (lp2, ts2), d2)"
    and nd: "path_index m out_dir \<notin> d_dirs d"
    and cr: "CHR 0x0D \<notin> set html"
  shows "lp1 = path_join (io_sep m) out_dir ''dashboard_latest.html'' \<and> lp2 = lp1"
    and "d_files d1 lp1 = Some (translate_newlines (linesep m) html)
       \<and> d_files d2 lp1 = d_files d1 lp1"
    and "d_files d1 (path_join (io_sep m) out_dir ''index.html'') = d_files d1 lp1
       \<and> d_files d2 (path_join (io_sep m) out_dir ''index.html'') = d_files d1 lp1"
    and "d_files d1 ts1 = d_files d1 lp1 \<and> d_files d2 ts1 = d_files d1 lp1
       \<and> d_files d2 ts2 = d_files d1 lp1"
    and "ts1 = path_join (io_sep m) out_dir
           (''dashboard_'' @ pad4 (dt_year t1) @ pad2 (dt_month t1) @ pad2 (dt_day t1) @ ''_'' @
            pad2 (dt_hour t1) @ pad2 (dt_minute t1) @ pad2 (dt_second t1) @ ''.html'')"
    and "valid_datetime t1 \<Longrightarrow> valid_datetime t2 \<Longrightarrow> ts1 = ts2 \<longleftrightarrow> t1 = t2"
proof -
  note f1 = commit_files[OF c1 nd]
  have nd1: "path_index m out_dir \<notin> d_dirs d1" using f1 nd by simp
  note f2 = commit_files[OF c2 nd1]
  note s1 = commit_same_bytes[OF c1 nd cr] and s2 = commit_same_bytes[OF c2 nd1 cr]
  have l: "lp1 = path_latest m out_dir" "lp2 = path_latest m out_dir"
    "ts1 = path_ts m out_dir t1" "ts2 = path_ts m out_dir t2"
    using f1 f2 by simp_all
  show "lp1 = path_join (io_sep m) out_dir ''dashboard_latest.html'' \<and> lp2 = lp1"
    using l by (simp add: path_latest_def)
  show "d_files d1 lp1 = Some (translate_newlines (linesep m) html)
       \<and> d_files d2 lp1 = d_files d1 lp1"
    using l s1 s2 by simp
  show "d_files d1 (path_join (io_sep m) out_dir ''index.html'') = d_files d1 lp1
       \<and> d_files d2 (path_join (io_sep m) out_dir ''index.html'') = d_files d1 lp1"
    using l s1 s2 by (simp add: path_index_def)
  have old: "d_files d2 (path_ts m out_dir t1) = Some (translate_newlines (linesep m) html)"
  proof (cases "path_ts m out_dir t1 = path_ts m out_dir t2")
    case True
    then show ?thesis using s2 by simp
  next
    case False
    have "d_files d2 (path_ts m out_dir t1) = d_files d1 (path_ts m out_dir t1)"
      using f2 False paths_distinct(1)[of m out_dir t1] paths_distinct(3)[of m out_dir t1]
      by (simp add: fun_upd_def)
    then show ?thesis using s1 by simp
  qed
  show "d_files d1 ts1 = d_files d1 lp1 \<and> d_files d2 ts1 = d_files d1 lp1
       \<and> d_files d2 ts2 = d_files d1 lp1"
    using l s1 s2 old by simp
  show "ts1 = path_join (io_sep m) out_dir
           (''dashboard_'' @ pad4 (dt_year t1) @ pad2 (dt_month t1) @ pad2 (dt_day t1) @ ''_'' @
            pad2 (dt_hour t1) @ pad2 (dt_minute t1) @ pad2 (dt_second t1) @ ''.html'')"
    using l by (simp only: path_ts_name)
  show "ts1 = ts2 \<longleftrightarrow> t1 = t2" if "valid_datetime t1" "valid_datetime t2"
    using l path_ts_inj[OF that] by simp
qed

text \<open>
  A directory where the entry point should be: \<^verbatim>\<open>shutil.copy2\<close> copies the stable file
  into it, the commit ends without an exception, and there is no file \<^verbatim>\<open>index.html\<close>.
\<close>

lemma commit_into_directory:
  "fst (commit copy_io ''/app/dashboardmri'' scenario_time ''<html></html>'' blocked_disk)
     = Inr (''/app/dashboardmri/dashboard_latest.html'',
            ''/app/dashboardmri/dashboard_20240110_080000.html'')
   \<and> d_files (snd (commit copy_io ''/app/dashboardmri'' scenario_time ''<html></html>'' blocked_disk))
        ''/app/dashboardmri/index.html'' = None
   \<and> d_files (snd (commit copy_io ''/app/dashboardmri'' scenario_time ''<html></html>'' blocked_disk))
        ''/app/dashboardmri/index.html/dashboard_latest.html'' = Some ''<html></html>''"
proof -
  let ?o = "''/app/dashboardmri''"
  let ?w = "''<html></html>''"
  define d1 where "d1 = blocked_disk\<lparr>d_files := (d_files blocked_disk)
     (''/app/dashboardmri/dashboard_latest.html'' \<mapsto> ?w,
      ''/app/dashboardmri/dashboard_20240110_080000.html'' \<mapsto> ?w)\<rparr>"
  have wd: "write_dashboard copy_io ?o scenario_time ?w blocked_disk
     = (Inr (''/app/dashboardmri/dashboard_latest.html'',
             ''/app/dashboardmri/dashboard_20240110_080000.html''), d1)"
    unfolding write_dashboard_def copy_io_paths scenario_paths
    by (simp add: write_text_def open_w_def put_text_def linesep_def translate_newlines_LF
        can_open_w_def dirname_def copy_io_def plain_io_def blocked_disk_def d1_def)
  have bn: "basename CHR ''/'' ''/app/dashboardmri/dashboard_latest.html'' = ''dashboard_latest.html''"
    by (simp add: basename_def)
  have tg: "copy_target copy_io ''/app/dashboardmri/dashboard_latest.html''
              ''/app/dashboardmri/index.html'' d1
            = ''/app/dashboardmri/index.html/dashboard_latest.html''"
    by (simp add: copy_target_def d1_def blocked_disk_def copy_io_def plain_io_def bn path_join_def)
  have cp: "copy2 copy_io ''/app/dashboardmri/dashboard_latest.html''
              ''/app/dashboardmri/index.html'' d1
            = (True, d1\<lparr>d_files := (d_files d1)
                 (''/app/dashboardmri/index.html/dashboard_latest.html'' \<mapsto> ?w)\<rparr>)"
    unfolding copy2_def tg
    by (simp add: can_open_w_def dirname_def d1_def blocked_disk_def copy_io_def plain_io_def)
  have mi: "mirror_index copy_io ?o ''/app/dashboardmri/dashboard_latest.html'' d1
            = (Inr (), d1\<lparr>d_files := (d_files d1)
                 (''/app/dashboardmri/index.html/dashboard_latest.html'' \<mapsto> ?w)\<rparr>)"
    unfolding mirror_index_def copy_io_paths scenario_paths by (simp add: cp)
  have cm: "commit copy_io ?o scenario_time ?w blocked_disk
            = (Inr (''/app/dashboardmri/dashboard_latest.html'',
                    ''/app/dashboardmri/dashboard_20240110_080000.html''),
               d1\<lparr>d_files := (d_files d1)
                 (''/app/dashboardmri/index.html/dashboard_latest.html'' \<mapsto> ?w)\<rparr>)"
    by (simp add: commit_def wd mi)
  show ?thesis unfolding cm by (simp add: d1_def blocked_disk_def)
qed

text \<open>
  Claim C5 at a failing input: a document with a carriage return in it, \<^verbatim>\<open><p>a\<close>, the
  byte 13 and \<^verbatim>\<open>b</p>\<close>, is committed to the dashboard directory on a machine where
  \<^verbatim>\<open>shutil.copy2\<close> raises. The commit ends without an exception and the stable file holds
  the document, but the entry point, written from what \<^verbatim>\<open>open(latest, "r")\<close> reads, holds a
  line feed where the document has the carriage return: its content is not that of the
  stable file. On the same disk, where \<^verbatim>\<open>shutil.copy2\<close> works, the entry point holds the
  bytes of the stable file.
\<close>

theorem fallback_rewrites_carriage_return:
  "fst (commit plain_io ''/app/dashboardmri'' scenario_time cr_document dash_disk)
     = Inr (''/app/dashboardmri/dashboard_latest.html'',
            ''/app/dashboardmri/dashboard_20240110_080000.html'')
   \<and> d_files (snd (commit plain_io ''/app/dashboardmri'' scenario_time cr_document dash_disk))
        ''/app/dashboardmri/dashboard_latest.html'' = Some cr_document
   \<and> d_files (snd (commit plain_io ''/app/dashboardmri'' scenario_time cr_document dash_disk))
        ''/app/dashboardmri/index.html'' = Some lf_document
   \<and> lf_document \<noteq> cr_document
   \<and> fst (commit copy_io ''/app/dashboardmri'' scenario_time cr_document dash_disk)
     = Inr (''/app/dashboardmri/dashboard_latest.html'',
            ''/app/dashboardmri/dashboard_20240110_080000.html'')
   \<and> d_files (snd (commit copy_io ''/app/dashboardmri'' scenario_time cr_document dash_disk))
        ''/app/dashboardmri/dashboard_latest.html'' = Some cr_document
   \<and> d_files (snd (commit copy_io ''/app/dashboardmri'' scenario_time cr_document dash_disk))
        ''/app/dashboardmri/index.html'' = Some cr_document"
proof -
  let ?o = "''/app/dashboardmri''"
  note sp = scenario_paths
  have nd: "path_index plain_io ?o \<notin> d_dirs dash_disk"
    unfolding sp by (simp add: dash_disk_def)
  have wp: "can_open_w plain_io dash_disk (path_latest plain_io ?o)"
    "can_open_w plain_io dash_disk (path_ts plain_io ?o scenario_time)"
    "can_open_w plain_io dash_disk (path_index plain_io ?o)"
    unfolding sp by (simp_all add: can_open_w_def dirname_def plain_io_def dash_disk_def)
  obtain d2 where p: "commit plain_io ?o scenario_time cr_document dash_disk
      = (Inr (path_latest plain_io ?o, path_ts plain_io ?o scenario_time), d2)"
    using commit_succeeds[OF wp] by blast
  have op: "copy2_outcome plain_io (path_latest plain_io ?o) (path_index plain_io ?o) \<noteq> Copied"
    by (simp add: plain_io_def)
  have fp: "d_files d2 (path_latest plain_io ?o) = Some cr_document"
    "d_files d2 (path_index plain_io ?o) = Some lf_document"
    using commit_files[OF p nd] op paths_distinct(1)[of plain_io ?o scenario_time]
      paths_distinct(2)[of plain_io ?o] paths_distinct(3)[of plain_io ?o scenario_time]
    by (simp_all add: plain_linesep translate_newlines_LF cr_read_back)
  have ndc: "path_index copy_io ?o \<notin> d_dirs dash_disk"
    using nd by (simp add: copy_io_paths)
  have wc: "can_open_w copy_io dash_disk (path_latest copy_io ?o)"
    "can_open_w copy_io dash_disk (path_ts copy_io ?o scenario_time)"
    "can_open_w copy_io dash_disk (path_index copy_io ?o)"
    unfolding copy_io_paths sp
    by (simp_all add: can_open_w_def dirname_def copy_io_def plain_io_def dash_disk_def)
  obtain d3 where c: "commit copy_io ?o scenario_time cr_document dash_disk
      = (Inr (path_latest copy_io ?o, path_ts copy_io ?o scenario_time), d3)"
    using commit_succeeds[OF wc] by blast
  have oc: "copy2_outcome copy_io (path_latest copy_io ?o) (path_index copy_io ?o) = Copied"
    by (simp add: copy_io_def)
  have fc: "d_files d3 (path_latest copy_io ?o) = Some cr_document"
    "d_files d3 (path_index copy_io ?o) = Some cr_document"
    using commit_files[OF c ndc] oc paths_distinct(1)[of copy_io ?o scenario_time]
      paths_distinct(2)[of copy_io ?o] paths_distinct(3)[of copy_io ?o scenario_time]
    by (simp_all add: plain_linesep translate_newlines_LF)
  have ne: "lf_document \<noteq> cr_document" by (simp add: cr_document_def lf_document_def)
  show ?thesis
    using p fp c fc ne by (simp add: copy_io_paths sp)
qed

section \<open>Rendering values that are no numbers (C4)\<close>

lemma aggregate_single:
  assumes "canonical (timestamp r)" "30 * 86400 \<le> seconds_of (timestamp r)"
  shows "aggregate [r] = Inr \<lparr>latest = r, readings = [r]\<rparr>"
proof -
  have ne: "[r] \<noteq> []" by simp
  have inv: "store_canonical [r]" using assms(1) by (simp add: store_canonical_def)
  have rep: "\<exists>x\<in>set [r]. 30 * 86400 \<le> seconds_of (timestamp x)" using assms(2) by simp
  obtain snap where s: "aggregate [r] = Inr snap" "fetch_last_record [r] = Some (latest snap)"
    "readings snap = sort_key timestamp
       (filter (\<lambda>x. seconds_of (timestamp (latest snap)) - 30 * 86400 \<le> seconds_of (timestamp x)
                   \<and> seconds_of (timestamp x) \<le> seconds_of (timestamp (latest snap))) [r])"
    using aggregate_canonical[OF ne inv rep] by blast
  have l: "latest snap = r" using s(2) by (simp add: fetch_last_record_def)
  have "readings snap = [r]" unfolding s(3) l by simp
  then have "snap = \<lparr>latest = r, readings = [r]\<rparr>" using l by (cases snap) simp
  then show ?thesis using s(1) by simp
qed

lemma not_float_literal: "\<not> float_literal ''n/a''"
  by (simp add: float_literal_def strip_def is_space_def opt_sign_def lower_def mantissa_def
      digitpart_def is_digit_iff Let_def)

lemma scenario_display: "it_ts_display ''2024-01-10 08:00:00'' = ''10/01/24 08:00''"
proof -
  have "strptime ''2024-01-10 08:00:00'' iso_format = Inr scenario_time"
    using strptime_strftime[OF scenario_valid] by (simp only: scenario_stamp)
  moreover have "strftime scenario_time ''%d/%m/%y %H:%M'' = ''10/01/24 08:00''"
    by (simp add: scenario_time_def directive_def pad2_def digit_char_def char_of_eq_iff)
  ultimately show ?thesis by (simp add: it_ts_display_def)
qed

text \<open>
  Claim C4 at a failing input: the reading of the scenario with the text \<^verbatim>\<open>n/a\<close> as its
  oxygen value. \<^verbatim>\<open>format_num\<close> renders the value as it is, and the rows of the export and
  of the main table are produced; the loop of the dashboard passes the value to \<^verbatim>\<open>float\<close>
  and ends with \<^verbatim>\<open>ValueError\<close>, so the dashboard is not generated.
\<close>

theorem dashboard_aborts_on_text:
  "format_num L (SqlText ''n/a'') = ''n/a''
   \<and> export_rows L [text_reading] =
        [[''10/01/24 08:00'', ''n/a'', format_num L (SqlInt 45), format_num L (SqlInt 21),
          format_num L (SqlInt 44), format_num L (SqlInt 21), ''SI'', ''NO'', ''MRossi'']]
   \<and> aggregate [text_reading] = Inr \<lparr>latest = text_reading, readings = [text_reading]\<rparr>
   \<and> dashboard_loop L [text_reading] empty_chart = Inl ValueError
   \<and> fst (generate_dashboard_html L plain_io scenario_time scenario_time ''/app/dashboardmri'' False
             [text_reading] empty_disk) = Inl ValueError"
proof -
  have pf: "py_float L (SqlText ''n/a'') = Inl ValueError"
    by (simp add: py_float_def not_float_literal)
  have 1: "format_num L (SqlText ''n/a'') = ''n/a''"
    by (simp add: format_num_def pf py_str_def)
  have ts: "timestamp text_reading = ''2024-01-10 08:00:00''"
    by (simp add: text_reading_def reading_at_def)
  have 2: "export_rows L [text_reading] =
        [[''10/01/24 08:00'', ''n/a'', format_num L (SqlInt 45), format_num L (SqlInt 21),
          format_num L (SqlInt 44), format_num L (SqlInt 21), ''SI'', ''NO'', ''MRossi'']]"
    by (simp add: export_rows_def row_cells_def ts scenario_display 1)
       (simp add: text_reading_def reading_at_def 1)
  have 3: "aggregate [text_reading] = Inr \<lparr>latest = text_reading, readings = [text_reading]\<rparr>"
    using scenario_canonical scenario_seconds by (intro aggregate_single) (simp_all only: ts)
  have o: "o2 text_reading = SqlText ''n/a''" by (simp add: text_reading_def)
  have 4: "dashboard_loop L [text_reading] empty_chart = Inl ValueError"
    by (simp add: o pf)
  have mk: "\<exists>d0. makedirs plain_io ''/app/dashboardmri'' empty_disk = Inr d0"
    by (simp add: makedirs_def plain_io_def empty_disk_def)
  then obtain d0 where d0: "makedirs plain_io ''/app/dashboardmri'' empty_disk = Inr d0" by blast
  have 5: "fst (generate_dashboard_html L plain_io scenario_time scenario_time ''/app/dashboardmri'' False
             [text_reading] empty_disk) = Inl ValueError"
    by (simp add: generate_dashboard_html_def d0 3 4 del: dashboard_loop.simps)
  show ?thesis using 1 2 3 4 5 by blast
qed

end
